theory Spec2Isabelle
  imports Complex_Main "HOL-Library.AList"
begin

section \<open>Data model of \<open>src/algo/rrt_base.py\<close>\<close>

text \<open>
  A pose is the \<open>PointHeading\<close> object of the planner: a point \<open>(x, z, y)\<close> and a heading.
  The class is in \<open>utils.py\<close>, which is not part of the sources; as the specification
  has it (section 3), two poses are equal when their four fields are, and that equality
  is the key of the tree dictionary. Python floats are modelled as real numbers.
\<close>

record pose =
  pt_x :: real
  pt_y :: real
  pt_z :: real
  heading :: real

text \<open>The exceptions the modelled code can raise.\<close>

datatype error =
    AssertionError real real
  | KeyError
  | IndexError
  | TypeError
  | ValueError
  | ZeroDivisionError
  | AttributeError
  | OverflowError
  | JSONDecodeError

section \<open>Heading wrapping\<close>

text \<open>
  \<open>_validate_heading\<close> (lines 112-118): one \<open>if\<close>/\<open>elif\<close>, so \<open>2 * pi\<close> is
  subtracted or added at most once.
\<close>

definition validate_heading :: "real \<Rightarrow> real" where
  "validate_heading h =
     (if h > pi then h - pi * 2
      else if h < - pi then h + pi * 2
      else h)"

text \<open>\<open>_get_heading_error\<close> (lines 87-88).\<close>

definition get_heading_error :: "real \<Rightarrow> real \<Rightarrow> real" where
  "get_heading_error source target = validate_heading (target - source)"

section \<open>The planner object\<close>

text \<open>
  The fields \<open>RRTStarBase.__init__\<close> sets (lines 61-85). The tree dictionary is an
  association list in insertion order, updated with \<open>AList.update\<close> as a Python
  \<open>dict\<close> is (an existing key keeps its place, a new key goes last). The grid hash is a
  \<open>defaultdict(list)\<close>: a total function from cells to lists, empty where nothing was
  stored. \<open>x_min\<close> and \<open>y_min\<close> start as the Python value None.
\<close>

record planner =
  near_threshold :: real
  max_distance :: real
  max_linear_velocity :: real
  max_angular_velocity :: real
  directory :: "string option"
  tree :: "(pose \<times> pose option) list"
  grid_hash :: "int \<times> int \<Rightarrow> pose list"
  best_goal_node :: "pose option"
  start_iteration :: int
  start :: "pose option"
  goal :: "pose option"
  cost_from_parent :: "pose \<rightharpoonup> real"
  x_min :: "real option"
  y_min :: "real option"

text \<open>
  \<open>RRTStarBase.__init__\<close> (lines 49-85). The \<open>assert\<close> of lines 57-60 raises an
  AssertionError whose message is built from both values; the error value carries the
  two numbers in the order of the message. Creating the output directories is left out.
\<close>

definition RRTStarBase_init ::
  "real \<Rightarrow> real \<Rightarrow> real \<Rightarrow> real \<Rightarrow> string option \<Rightarrow> error + planner" where
  "RRTStarBase_init mlv mav nt md dir =
     (if nt \<ge> md then
        Inr \<lparr> near_threshold = nt, max_distance = md,
              max_linear_velocity = mlv, max_angular_velocity = mav,
              directory = dir, tree = [], grid_hash = (\<lambda>c. []),
              best_goal_node = None, start_iteration = 0,
              start = None, goal = None, cost_from_parent = Map.empty,
              x_min = None, y_min = None \<rparr>
      else Inl (AssertionError nt md))"

text \<open>Sequencing of calls that may raise: the first error is propagated.\<close>

definition and_then :: "error + 'a \<Rightarrow> ('a \<Rightarrow> error + 'b) \<Rightarrow> error + 'b" where
  "and_then r f = (case r of Inl e \<Rightarrow> Inl e | Inr v \<Rightarrow> f v)"

section \<open>Grid hash\<close>

text \<open>\<open>_euclid_2D\<close> (lines 97-98).\<close>

definition euclid_2D :: "pose \<Rightarrow> pose \<Rightarrow> real" where
  "euclid_2D p1 p2 = sqrt ((pt_x p1 - pt_x p2)\<^sup>2 + (pt_y p1 - pt_y p2)\<^sup>2)"

text \<open>
  Python's float \<open>//\<close> and \<open>%\<close>: the floor of the quotient and the remainder with the
  sign of the divisor; both raise ZeroDivisionError on a zero divisor.
\<close>

definition floordiv :: "real \<Rightarrow> real \<Rightarrow> error + int" where
  "floordiv a b = (if b = 0 then Inl ZeroDivisionError else Inr \<lfloor>a / b\<rfloor>)"

definition pymod :: "real \<Rightarrow> real \<Rightarrow> error + real" where
  "pymod a b = (if b = 0 then Inl ZeroDivisionError else Inr (a - b * of_int \<lfloor>a / b\<rfloor>))"

text \<open>Subtracting an offset that is still None raises TypeError.\<close>

definition minus_offset :: "real \<Rightarrow> real option \<Rightarrow> error + real" where
  "minus_offset v m = (case m of None \<Rightarrow> Inl TypeError | Some m' \<Rightarrow> Inr (v - m'))"

text \<open>
  The cell of a pose, computed the same way in \<open>add_to_grid_hash\<close> (lines 250-251),
  \<open>_get_near_pts\<close> (lines 122-123) and \<open>_closest_tree_pt\<close> (lines 148-149).
\<close>

definition cell_of :: "'a planner_scheme \<Rightarrow> pose \<Rightarrow> error + (int \<times> int)" where
  "cell_of s pt =
     and_then (minus_offset (pt_x pt) (x_min s)) (\<lambda>dx.
     and_then (floordiv dx (near_threshold s)) (\<lambda>i.
     and_then (minus_offset (pt_y pt) (y_min s)) (\<lambda>dy.
     and_then (floordiv dy (near_threshold s)) (\<lambda>j.
     Inr (i, j)))))"

text \<open>\<open>add_to_grid_hash\<close> (lines 249-252).\<close>

definition add_to_grid_hash :: "'a planner_scheme \<Rightarrow> pose \<Rightarrow> error + 'a planner_scheme" where
  "add_to_grid_hash s pt =
     and_then (cell_of s pt) (\<lambda>c.
     Inr (s\<lparr>grid_hash := (grid_hash s)(c := grid_hash s c @ [pt])\<rparr>))"

text \<open>A run of \<open>add_to_grid_hash\<close> calls, one per pose, in order.\<close>

fun add_all :: "'a planner_scheme \<Rightarrow> pose list \<Rightarrow> error + 'a planner_scheme" where
  "add_all s [] = Inr s"
| "add_all s (q # qs) = and_then (add_to_grid_hash s q) (\<lambda>s'. add_all s' qs)"

text \<open>
  \<open>_get_near_pts\<close> (lines 120-144): the cell of the query and three neighbours, chosen
  by the half of the cell the query lies in. Reading a missing key of the
  \<open>defaultdict\<close> gives the empty list.
\<close>

definition get_near_pts :: "'a planner_scheme \<Rightarrow> pose \<Rightarrow> error + pose list" where
  "get_near_pts s pt =
     and_then (cell_of s pt) (\<lambda>(i, j).
     and_then (minus_offset (pt_x pt) (x_min s)) (\<lambda>dx.
     and_then (pymod dx (near_threshold s)) (\<lambda>mx.
     and_then (minus_offset (pt_y pt) (y_min s)) (\<lambda>dy.
     and_then (pymod dy (near_threshold s)) (\<lambda>my.
       let g = grid_hash s;
           left = (mx < near_threshold s / 2);
           down = (my < near_threshold s / 2)
       in Inr (g (i, j) @
           (if left then
              g (i - 1, j) @
              (if down then g (i - 1, j - 1) @ g (i, j - 1)
               else g (i - 1, j + 1) @ g (i, j + 1))
            else
              g (i + 1, j) @
              (if down then g (i + 1, j - 1) @ g (i, j - 1)
               else g (i + 1, j + 1) @ g (i, j + 1)))))))))"


text \<open>\<open>RRTStarPNG.__init__\<close> sets both offsets to zero (lines 795-796).\<close>

definition png_offsets :: "'a planner_scheme \<Rightarrow> 'a planner_scheme" where
  "png_offsets s = s\<lparr>x_min := Some 0, y_min := Some 0\<rparr>"

text \<open>
  A planner as the constructor leaves it for the thresholds 1 and 1, with the offsets
  of the raster variant; and a pose on the plane \<open>z = 0\<close> with heading 0.
\<close>

definition unit_planner :: planner where
  "unit_planner = png_offsets
     \<lparr> near_threshold = 1, max_distance = 1,
       max_linear_velocity = 1, max_angular_velocity = 1,
       directory = None, tree = [], grid_hash = (\<lambda>c. []),
       best_goal_node = None, start_iteration = 0,
       start = None, goal = None, cost_from_parent = Map.empty,
       x_min = None, y_min = None \<rparr>"

definition pose_at :: "real \<Rightarrow> real \<Rightarrow> pose" where
  "pose_at a b = \<lparr>pt_x = a, pt_y = b, pt_z = 0, heading = 0\<rparr>"

section \<open>Nearest tree node\<close>







section \<open>The raster planner \<open>RRTStarPNG\<close>\<close>

text \<open>
  A two-dimensional numpy array: its shape and its cells.
\<close>

record 'a ndarray =
  nrows :: nat
  ncols :: nat
  cell_at :: "nat \<Rightarrow> nat \<Rightarrow> 'a"

text \<open>
  numpy converts a Python integer that is used as an index to its signed 64-bit index
  type before it looks at the shape. An integer from \<open>2 ^ 63\<close> up to \<open>2 ^ 64 - 1\<close> raises
  OverflowError there; an integer beyond the 64-bit ranges is no valid index and raises
  IndexError.
\<close>

definition np_index :: "int \<Rightarrow> error + int" where
  "np_index i =
     (if 2 ^ 63 \<le> i \<and> i < 2 ^ 64 then Inl OverflowError
      else if i < - (2 ^ 63) \<or> 2 ^ 64 \<le> i then Inl IndexError
      else Inr i)"

text \<open>
  Reading \<open>a[r, c]\<close>: both indices are converted, then checked against the shape. An
  index from \<open>- n\<close> to \<open>n - 1\<close> is accepted in a dimension of size \<open>n\<close> (a negative index
  counts from the end); outside that range the read raises IndexError.
\<close>

definition np_get :: "'a ndarray \<Rightarrow> int \<Rightarrow> int \<Rightarrow> error + 'a" where
  "np_get a r c =
     and_then (np_index r) (\<lambda>r.
     and_then (np_index c) (\<lambda>c.
       let h = int (nrows a); w = int (ncols a)
       in if - h \<le> r \<and> r < h \<and> - w \<le> c \<and> c < w
          then Inr (cell_at a (nat (if r < 0 then r + h else r)) (nat (if c < 0 then c + w else c)))
          else Inl IndexError))"

text \<open>Python's \<open>int(x)\<close> on a float truncates towards zero; \<open>round(x)\<close> rounds half to even.\<close>

definition py_int :: "real \<Rightarrow> int" where
  "py_int r = (if 0 \<le> r then \<lfloor>r\<rfloor> else \<lceil>r\<rceil>)"

definition py_round :: "real \<Rightarrow> int" where
  "py_round r =
     (let f = \<lfloor>r\<rfloor>; d = r - of_int f
      in if d < 1 / 2 then f else if 1 / 2 < d then f + 1 else if even f then f else f + 1)"

text \<open>The configuration object the constructors read.\<close>

record params =
  MAX_LINEAR_VELOCITY :: real
  MAX_ANGULAR_VELOCITY :: real
  NEAR_THRESHOLD :: real
  MAX_DISTANCE :: real
  OUT_DIR :: "string option"
  METERS_PER_PIXEL :: real
  AGENT_RADIUS :: real

text \<open>
  The fields \<open>RRTStarPNG.__init__\<close> adds (lines 784-810). \<open>meters_per_pixel\<close> is the
  local variable the two scaling closures capture. \<open>iteration_count\<close> and
  \<open>visualize_iterations\<close> are attributes \<open>generate_tree\<close> sets later (lines 314 and 415);
  None stands for an attribute not yet set.
\<close>

record png_planner = planner +
  map_img :: "nat ndarray"
  map_height :: real
  map_width :: real
  meters_per_pixel :: real
  info_map :: "int ndarray"
  local_map_size :: int
  cell_size :: real
  iteration_count :: "int option"
  visualize_iterations :: "int option"

text \<open>
  \<open>RRTStarPNG.__init__\<close> (lines 773-824). The image file is read by OpenCV: \<open>gray\<close> is
  the result of \<open>cv2.cvtColor\<close> on it, and \<open>blur\<close> stands for \<open>cv2.blur\<close>. Writing the
  debugging image of line 824 is left out.
\<close>

definition RRTStarPNG_init ::
  "params \<Rightarrow> nat ndarray \<Rightarrow> (nat ndarray \<Rightarrow> int \<Rightarrow> nat ndarray) \<Rightarrow> error + png_planner" where
  "RRTStarPNG_init prm gray blur =
     and_then (RRTStarBase_init (MAX_LINEAR_VELOCITY prm) (MAX_ANGULAR_VELOCITY prm * pi / 180)
                 (NEAR_THRESHOLD prm) (MAX_DISTANCE prm) (OUT_DIR prm)) (\<lambda>b.
     let mpp = METERS_PER_PIXEL prm;
         thresholded = \<lparr> nrows = nrows gray, ncols = ncols gray,
                         cell_at = (\<lambda>r c. if cell_at gray r c > 240 then 255 else 0) \<rparr>
     in if mpp = 0 then Inl ZeroDivisionError
        else
          let m = blur thresholded (py_round (AGENT_RADIUS prm / mpp))
          in and_then (floordiv (near_threshold b * (6 / 5)) mpp) (\<lambda>lms.
             Inr \<lparr> near_threshold = near_threshold b, max_distance = max_distance b,
                   max_linear_velocity = max_linear_velocity b,
                   max_angular_velocity = max_angular_velocity b,
                   directory = directory b, tree = tree b, grid_hash = grid_hash b,
                   best_goal_node = best_goal_node b, start_iteration = start_iteration b,
                   start = start b, goal = goal b, cost_from_parent = cost_from_parent b,
                   x_min = Some 0, y_min = Some 0,
                   map_img = m,
                   map_height = real (nrows gray) * mpp,
                   map_width = real (ncols gray) * mpp,
                   meters_per_pixel = mpp,
                   info_map = \<lparr> nrows = nrows m, ncols = ncols m,
                                cell_at = (\<lambda>r c. if cell_at m r c \<noteq> 255 then 1 else 0) \<rparr>,
                   local_map_size = lms,
                   cell_size = mpp,
                   iteration_count = None,
                   visualize_iterations = None \<rparr>))"

text \<open>\<open>_scale_x\<close> and \<open>_scale_y\<close> (lines 792-793): \<open>int(x / meters_per_pixel)\<close>.\<close>

definition scale_x :: "'a png_planner_scheme \<Rightarrow> real \<Rightarrow> error + int" where
  "scale_x s v =
     (if meters_per_pixel s = 0 then Inl ZeroDivisionError
      else Inr (py_int (v / meters_per_pixel s)))"

definition scale_y :: "'a png_planner_scheme \<Rightarrow> real \<Rightarrow> error + int" where
  "scale_y s v =
     (if meters_per_pixel s = 0 then Inl ZeroDivisionError
      else Inr (py_int (v / meters_per_pixel s)))"

text \<open>
  \<open>RRTStarPNG._is_navigable\<close> (lines 826-833). Both pixel indices go through
  \<open>_scale_x\<close>, as in the source; only IndexError is caught, any other error of the
  read goes on to the caller.
\<close>

definition is_navigable :: "'a png_planner_scheme \<Rightarrow> pose \<Rightarrow> error + bool" where
  "is_navigable s pt =
     and_then (scale_x s (pt_x pt)) (\<lambda>px.
     and_then (scale_x s (pt_y pt)) (\<lambda>py.
       (case np_get (map_img s) py px of
          Inr v \<Rightarrow> Inr (v = 255)
        | Inl e \<Rightarrow> if e = IndexError then Inr False else Inl e)))"

text \<open>
  A raster planner for the concrete runs: a four by four image, all free, one metre per
  pixel, an agent radius of one pixel (a one by one box blur leaves the image as it is).
\<close>

definition small_params :: params where
  "small_params =
     \<lparr> MAX_LINEAR_VELOCITY = 1, MAX_ANGULAR_VELOCITY = 90, NEAR_THRESHOLD = 3 / 2,
       MAX_DISTANCE = 1, OUT_DIR = Some ''out'', METERS_PER_PIXEL = 1, AGENT_RADIUS = 1 \<rparr>"

definition white_image :: "nat ndarray" where
  "white_image = \<lparr> nrows = 4, ncols = 4, cell_at = (\<lambda>r c. 255) \<rparr>"

section \<open>The tree and the cost from the start\<close>

text \<open>
  The cost model is a mixin class of the repository that is not part of the sources
  (\<open>rrt_unicycle.py\<close>, \<open>rrt_pointturn.py\<close>, \<open>rrt_shortest.py\<close>); the planner reaches it
  through two methods, which are parameters here. \<open>cost_from_to a b ceh\<close> stands for
  \<open>_cost_from_to(a, b, consider_end_heading=ceh)\<close> and gives the cost together with the
  heading at \<open>b\<close> that \<open>return_heading=True\<close> asks for; \<open>path_exists\<close> stands for
  \<open>_path_exists\<close>. Costs are finite reals.
\<close>

record cost_model =
  cost_from_to :: "pose \<Rightarrow> pose \<Rightarrow> bool \<Rightarrow> real \<times> real"
  path_exists :: "pose \<Rightarrow> pose \<Rightarrow> bool"

text \<open>
  A call that may raise, or may never return (None): sequencing for the functions
  that walk the parent links.
\<close>

definition try_then ::
  "(error + 'a) option \<Rightarrow> ('a \<Rightarrow> (error + 'b) option) \<Rightarrow> (error + 'b) option" where
  "try_then m f =
     (case m of None \<Rightarrow> None | Some (Inl e) \<Rightarrow> Some (Inl e) | Some (Inr v) \<Rightarrow> f v)"

text \<open>
  The loop of \<open>_get_path_to_start\<close> (lines 92-94) with its variables \<open>pt\<close> and \<open>path\<close>.
  \<open>self.tree[pt]\<close> raises KeyError for a pose that is no key. A key other than the
  start that is mapped to None makes \<open>pt\<close> None, and the next lookup raises KeyError
  (the start is set whenever the tree has an entry). A cycle of parent links that
  avoids the start keeps the loop running: the value None.
\<close>

partial_function (option) path_to_start_loop ::
  "(pose \<times> pose option) list \<Rightarrow> pose option \<Rightarrow> pose \<Rightarrow> pose list \<Rightarrow> (error + pose list) option"
  where
  "path_to_start_loop tr st pt path =
     (if Some pt \<noteq> st then
        (case map_of tr pt of
           None \<Rightarrow> Some (Inl KeyError)
         | Some None \<Rightarrow> Some (Inl KeyError)
         | Some (Some parent) \<Rightarrow> path_to_start_loop tr st parent (parent # path))
      else Some (Inr path))"

text \<open>\<open>_get_path_to_start\<close> (lines 90-95).\<close>

definition get_path_to_start ::
  "'a planner_scheme \<Rightarrow> pose \<Rightarrow> (error + pose list) option" where
  "get_path_to_start s pt = path_to_start_loop (tree s) (start s) pt [pt]"

text \<open>
  The \<open>for parent, child in zip(...)\<close> loop of \<open>_cost_from_start\<close> (lines 174-179), with
  the cache \<open>_cost_from_parent\<close> and the running \<open>cost\<close>.
\<close>

fun cost_loop ::
  "(pose \<Rightarrow> pose \<Rightarrow> real) \<Rightarrow> (pose \<rightharpoonup> real) \<Rightarrow> real \<Rightarrow> (pose \<times> pose) list \<Rightarrow>
   (pose \<rightharpoonup> real) \<times> real" where
  "cost_loop cft cache cost [] = (cache, cost)"
| "cost_loop cft cache cost ((parent, child) # rest) =
     (case cache child of
        None \<Rightarrow> cost_loop cft (cache(child \<mapsto> cft parent child)) (cost + cft parent child) rest
      | Some c \<Rightarrow> cost_loop cft cache (cost + c) rest)"

text \<open>
  \<open>_cost_from_start\<close> (lines 171-180): the cost, and the planner with the cache the
  call has filled.
\<close>

definition cost_from_start ::
  "cost_model \<Rightarrow> 'a planner_scheme \<Rightarrow> pose \<Rightarrow> (error + real \<times> 'a planner_scheme) option" where
  "cost_from_start cm s pt =
     try_then (get_path_to_start s pt) (\<lambda>path.
       let (cache, cost) =
             cost_loop (\<lambda>a b. fst (cost_from_to cm a b True)) (cost_from_parent s) 0
               (zip (butlast path) (tl path))
       in Some (Inr (cost, s\<lparr>cost_from_parent := cache\<rparr>)))"

section \<open>One pass of \<open>generate_tree\<close> after sampling\<close>

text \<open>
  The start of \<open>generate_tree\<close> (lines 317-326) for the two poses the \<open>PointHeading\<close>
  constructor has built; on the raster planner \<open>_set_offsets\<close> does nothing.
\<close>

definition generate_tree_init ::
  "'a planner_scheme \<Rightarrow> pose \<Rightarrow> pose \<Rightarrow> error + 'a planner_scheme" where
  "generate_tree_init s start_pose goal_pose =
     add_to_grid_hash
       (s\<lparr> start := Some start_pose, goal := Some goal_pose,
           tree := AList.update start_pose None (tree s),
           cost_from_parent := (cost_from_parent s)(start_pose \<mapsto> 0) \<rparr>)
       start_pose"

text \<open>Finding the valid neighbours of the sample (lines 439-451).\<close>

definition find_nearby_nodes ::
  "cost_model \<Rightarrow> 'a planner_scheme \<Rightarrow> pose \<Rightarrow> error + pose list" where
  "find_nearby_nodes cm s rand_pt =
     and_then (get_near_pts s rand_pt) (\<lambda>near.
       Inr (filter (\<lambda>pt. euclid_2D rand_pt pt < near_threshold s \<and>
                          (pt_x rand_pt, pt_y rand_pt) \<noteq> (pt_x pt, pt_y pt) \<and>
                          path_exists cm pt rand_pt) near))"

text \<open>
  The loop that chooses the parent (lines 454-464). The four variables it keeps
  (\<open>min_cost\<close>, \<open>best_final_heading\<close>, \<open>best_parent_idx\<close>, \<open>best_cost_from_parent\<close>) are
  one tuple; None stands for the initial \<open>min_cost\<close> of infinity, below which every
  finite cost lies.
\<close>

fun parent_loop ::
  "cost_model \<Rightarrow> 'a planner_scheme \<Rightarrow> pose \<Rightarrow> (real \<times> real \<times> nat \<times> real) option \<Rightarrow> nat \<Rightarrow>
   pose list \<Rightarrow> (error + (real \<times> real \<times> nat \<times> real) option \<times> 'a planner_scheme) option" where
  "parent_loop cm s rand_pt best idx [] = Some (Inr (best, s))"
| "parent_loop cm s rand_pt best idx (pt # rest) =
     (let (cost_from_parent', final_heading) = cost_from_to cm pt rand_pt False
      in try_then (cost_from_start cm s pt) (\<lambda>(c, s1).
           let new_cost = c + cost_from_parent';
               best' = (case best of
                          None \<Rightarrow> Some (new_cost, final_heading, idx, cost_from_parent')
                        | Some (min_cost, _) \<Rightarrow>
                            if new_cost < min_cost
                            then Some (new_cost, final_heading, idx, cost_from_parent')
                            else best)
           in parent_loop cm s1 rand_pt best' (idx + 1) rest))"

text \<open>
  Adding the new node (lines 471-475): the heading is set on the sample first, so the
  key written to the dictionaries is the pose with the new heading. \<open>pop\<close> raises
  IndexError for an index past the end, which the source catches to give the sample
  up (None here).
\<close>

definition insert_node ::
  "'a planner_scheme \<Rightarrow> pose \<Rightarrow> real \<times> real \<times> nat \<times> real \<Rightarrow> pose list \<Rightarrow>
   error + ('a planner_scheme \<times> pose \<times> pose list) option" where
  "insert_node s rand_pt best nearby_nodes =
     (case best of (min_cost, best_final_heading, best_parent_idx, best_cost_from_parent) \<Rightarrow>
        let rand_pt' = rand_pt\<lparr>heading := best_final_heading\<rparr>
        in if best_parent_idx < length nearby_nodes then
             and_then
               (add_to_grid_hash
                  (s\<lparr> tree := AList.update rand_pt' (Some (nearby_nodes ! best_parent_idx)) (tree s),
                      cost_from_parent := (cost_from_parent s)(rand_pt' \<mapsto> best_cost_from_parent) \<rparr>)
                  rand_pt')
               (\<lambda>s'. Inr (Some (s', rand_pt',
                     take best_parent_idx nearby_nodes @ drop (Suc best_parent_idx) nearby_nodes)))
           else Inr None)"

text \<open>The body of the rewiring loop for one neighbour (lines 484-494).\<close>

definition rewire_step ::
  "cost_model \<Rightarrow> 'a planner_scheme \<Rightarrow> pose \<Rightarrow> pose \<Rightarrow> (error + 'a planner_scheme) option" where
  "rewire_step cm s rand_pt pt =
     (if Some pt = start s then Some (Inr s)
      else
        let cost_from_new_pt = fst (cost_from_to cm rand_pt pt True)
        in try_then (cost_from_start cm s rand_pt) (\<lambda>(c_rand, s1).
           let new_cost = c_rand + cost_from_new_pt
           in try_then (cost_from_start cm s1 pt) (\<lambda>(c_pt, s2).
                if new_cost < c_pt \<and> path_exists cm rand_pt pt
                then Some (Inr (s2\<lparr> tree := AList.update pt (Some rand_pt) (tree s2),
                                    cost_from_parent := (cost_from_parent s2)(pt \<mapsto> cost_from_new_pt) \<rparr>))
                else Some (Inr s2))))"

text \<open>The rewiring loop (lines 483-494).\<close>

fun rewire ::
  "cost_model \<Rightarrow> 'a planner_scheme \<Rightarrow> pose \<Rightarrow> pose list \<Rightarrow> (error + 'a planner_scheme) option" where
  "rewire cm s rand_pt [] = Some (Inr s)"
| "rewire cm s rand_pt (pt # rest) =
     try_then (rewire_step cm s rand_pt pt) (\<lambda>s'. rewire cm s' rand_pt rest)"

text \<open>Writing \<open>a[r, c] = v\<close>, with the index rules of reading.\<close>

definition np_set :: "'a ndarray \<Rightarrow> int \<Rightarrow> int \<Rightarrow> 'a \<Rightarrow> error + 'a ndarray" where
  "np_set a r c v =
     and_then (np_index r) (\<lambda>r.
     and_then (np_index c) (\<lambda>c.
       let h = int (nrows a); w = int (ncols a)
       in if - h \<le> r \<and> r < h \<and> - w \<le> c \<and> c < w
          then Inr (a\<lparr>cell_at :=
                 (\<lambda>r' c'. if r' = nat (if r < 0 then r + h else r) \<and>
                              c' = nat (if c < 0 then c + w else c)
                           then v else cell_at a r' c')\<rparr>)
          else Inl IndexError))"

text \<open>\<open>_add_node_in_info_map\<close> (lines 892-895).\<close>

definition add_node_in_info_map ::
  "'a png_planner_scheme \<Rightarrow> real \<times> real \<Rightarrow> error + 'a png_planner_scheme" where
  "add_node_in_info_map s node_pos =
     and_then (scale_x s (fst node_pos)) (\<lambda>px.
     and_then (scale_y s (snd node_pos)) (\<lambda>py.
     and_then (np_set (info_map s) py px 2) (\<lambda>m.
     Inr (s\<lparr>info_map := m\<rparr>))))"

text \<open>
  Lines 438-494 of \<open>generate_tree\<close> on the raster planner, for the sample \<open>rand_pt\<close> that
  the sampling part has produced: neighbours, parent, insertion, info map, rewiring.
  A sample that is given up (\<open>continue\<close>) leaves the planner with the cache the cost
  calls have filled.
\<close>

definition connect_sample ::
  "cost_model \<Rightarrow> 'a png_planner_scheme \<Rightarrow> pose \<Rightarrow> (error + 'a png_planner_scheme) option" where
  "connect_sample cm s rand_pt =
     (case find_nearby_nodes cm s rand_pt of
        Inl e \<Rightarrow> Some (Inl e)
      | Inr nearby_nodes \<Rightarrow>
          if nearby_nodes = [] then Some (Inr s)
          else
            try_then (parent_loop cm s rand_pt None 0 nearby_nodes) (\<lambda>(best, s1).
              (case best of
                 None \<Rightarrow> Some (Inr s1)
               | Some b \<Rightarrow>
                   (case insert_node s1 rand_pt b nearby_nodes of
                      Inl e \<Rightarrow> Some (Inl e)
                    | Inr None \<Rightarrow> Some (Inr s1)
                    | Inr (Some (s2, rand_pt', nearby_nodes')) \<Rightarrow>
                        (case add_node_in_info_map s2 (pt_x rand_pt', pt_y rand_pt') of
                           Inl e \<Rightarrow> Some (Inl e)
                         | Inr s3 \<Rightarrow> rewire cm s3 rand_pt' nearby_nodes')))))"

section \<open>Reasoning about the parent links\<close>

text \<open>
  The cost \<open>_cost_from_start\<close> adds for the edge into a child: the cached value, or the
  value the cost model gives when the cache has none.
\<close>

definition edge_cost :: "cost_model \<Rightarrow> (pose \<rightharpoonup> real) \<Rightarrow> pose \<Rightarrow> pose \<Rightarrow> real" where
  "edge_cost cm cache parent child =
     (case cache child of None \<Rightarrow> fst (cost_from_to cm parent child True) | Some c \<Rightarrow> c)"

text \<open>
  \<open>walk tr st ec p path c\<close>: following the parent links of the tree \<open>tr\<close> from \<open>p\<close>
  reaches the start \<open>st\<close>; \<open>path\<close> lists the poses from the start to \<open>p\<close> and \<open>c\<close> is
  the sum of the edge costs \<open>ec\<close> along it. A derivation is finite, so a pose with a
  walk reaches the start in finitely many steps.
\<close>

inductive walk ::
  "(pose \<times> pose option) list \<Rightarrow> pose \<Rightarrow> (pose \<Rightarrow> pose \<Rightarrow> real) \<Rightarrow> pose \<Rightarrow> pose list \<Rightarrow> real \<Rightarrow> bool"
  for tr :: "(pose \<times> pose option) list" and st :: pose and ec :: "pose \<Rightarrow> pose \<Rightarrow> real" where
  walk_start: "walk tr st ec st [st] 0"
| walk_step: "p \<noteq> st \<Longrightarrow> map_of tr p = Some (Some parent) \<Longrightarrow> walk tr st ec parent path c \<Longrightarrow>
     walk tr st ec p (path @ [p]) (c + ec parent p)"

text \<open>
  What a call of \<open>_cost_from_start\<close> may do to the cache: add the cost of a tree edge
  for a child that had none.
\<close>

definition cache_fill ::
  "cost_model \<Rightarrow> (pose \<times> pose option) list \<Rightarrow> (pose \<rightharpoonup> real) \<Rightarrow> (pose \<rightharpoonup> real) \<Rightarrow> bool" where
  "cache_fill cm tr cache cache' =
     (\<forall>child. cache' child = cache child \<or>
        (cache child = None \<and>
         (\<exists>parent. map_of tr child = Some (Some parent) \<and>
            cache' child = Some (fst (cost_from_to cm parent child True)))))"

text \<open>
  The tree is well formed when the start is set and every key has a walk to it; the
  costs are nonnegative when the cost model and the cache give no negative value.
\<close>

definition tree_ok :: "cost_model \<Rightarrow> 'a planner_scheme \<Rightarrow> bool" where
  "tree_ok cm s =
     (\<exists>st. start s = Some st \<and>
        (\<forall>q\<in>fst ` set (tree s).
           \<exists>path c. walk (tree s) st (edge_cost cm (cost_from_parent s)) q path c))"

definition costs_nonneg :: "cost_model \<Rightarrow> 'a planner_scheme \<Rightarrow> bool" where
  "costs_nonneg cm s =
     ((\<forall>a b ceh. 0 \<le> fst (cost_from_to cm a b ceh)) \<and>
      (\<forall>q c. cost_from_parent s q = Some c \<longrightarrow> 0 \<le> c))"

text \<open>
  Modelled from the spec: the "shortest" cost model of section 4.4 (the file
  \<open>rrt_shortest.py\<close> is not part of the sources), on a map without obstacles. The cost
  is \<open>euclid_2D(a, b) / max_linear_velocity\<close>, the heading at \<open>b\<close> is
  \<open>atan2(b.y - a.y, b.x - a.x)\<close>, and every straight segment is free.
\<close>

definition atan2 :: "real \<Rightarrow> real \<Rightarrow> real" where
  "atan2 y x =
     (if 0 < x then arctan (y / x)
      else if x < 0 then (if 0 \<le> y then arctan (y / x) + pi else arctan (y / x) - pi)
      else if 0 < y then pi / 2
      else if y < 0 then - pi / 2
      else 0)"

definition shortest_open_field :: "real \<Rightarrow> cost_model" where
  "shortest_open_field v =
     \<lparr> cost_from_to = (\<lambda>a b ceh. (euclid_2D a b / v, atan2 (pt_y b - pt_y a) (pt_x b - pt_x a))),
       path_exists = (\<lambda>a b. True) \<rparr>"

text \<open>
  A tree on a line for the concrete runs: the start at 0, a node at 2 under the start, a
  node at 1 under the node at 2, and a node at 1.5 under the start, with the lengths of
  the edges as cached costs.
\<close>

definition line_planner :: planner where
  "line_planner = unit_planner
     \<lparr> start := Some (pose_at 0 0),
       tree := [(pose_at 0 0, None), (pose_at 2 0, Some (pose_at 0 0)),
                (pose_at 1 0, Some (pose_at 2 0)), (pose_at (3/2) 0, Some (pose_at 0 0))],
       cost_from_parent := [pose_at 0 0 \<mapsto> 0, pose_at 2 0 \<mapsto> 2, pose_at 1 0 \<mapsto> 1,
                            pose_at (3/2) 0 \<mapsto> 3/2] \<rparr>"

section \<open>A run on the small raster\<close>

text \<open>
  The poses of a run of \<open>generate_tree\<close> on the four by four raster: the start at
  \<open>(2, 1)\<close> with heading 0, a goal, and the first node the run inserts, at \<open>(1, 1)\<close> with
  the heading \<open>pi\<close> of the edge that comes from the start.
\<close>

definition start_pose :: pose where "start_pose = pose_at 2 1"
definition goal_pose :: pose where "goal_pose = pose_at 3 3"
definition first_node :: pose where "first_node = (pose_at 1 1)\<lparr>heading := pi\<rparr>"

section \<open>Checkpoints\<close>

text \<open>
  The pose class \<open>PointHeading\<close> lives in \<open>utils.py\<close>, which is not part of the sources.
  Its constructor and its \<open>_str_key\<close> method are parameters, and so is Python's
  \<open>float\<close> on a string (None for the ValueError it raises on text that is no number).
\<close>

record pose_codec =
  str_key :: "pose \<Rightarrow> string"
  float_of :: "string \<Rightarrow> real option"
  point_heading :: "real \<times> real \<times> real \<Rightarrow> real \<Rightarrow> pose"

text \<open>Python's \<open>s.split(sep)\<close> for a separator of one character.\<close>

fun split_on :: "char \<Rightarrow> string \<Rightarrow> string list" where
  "split_on sep [] = [[]]"
| "split_on sep (c # cs) =
     (if c = sep then [] # split_on sep cs
      else (case split_on sep cs of
              [] \<Rightarrow> [[c]]
            | w # ws \<Rightarrow> (c # w) # ws))"

text \<open>
  \<open>_str_to_pt\<close> (lines 228-231): unpacking raises ValueError unless the split gives four
  parts; the point is built as \<open>(float(x), float(z), float(y))\<close>, then the heading is
  converted.
\<close>

definition str_to_pt :: "pose_codec \<Rightarrow> string \<Rightarrow> error + pose" where
  "str_to_pt codec pt_str =
     (case split_on CHR ''_'' pt_str of
        [x, y, z, h] \<Rightarrow>
          (case float_of codec x of None \<Rightarrow> Inl ValueError | Some fx \<Rightarrow>
          (case float_of codec z of None \<Rightarrow> Inl ValueError | Some fz \<Rightarrow>
          (case float_of codec y of None \<Rightarrow> Inl ValueError | Some fy \<Rightarrow>
          (case float_of codec h of None \<Rightarrow> Inl ValueError | Some fh \<Rightarrow>
             Inr (point_heading codec (fx, fz, fy) fh)))))
      | _ \<Rightarrow> Inl ValueError)"

text \<open>
  The dictionary \<open>_string_tree\<close> returns (lines 266-284). A Python dictionary with
  string keys is an association list in insertion order.
\<close>

record string_tree_doc =
  doc_start :: string
  doc_goal :: string
  doc_best_goal_node :: string
  doc_cost :: real
  doc_best_path_raw :: "string list"
  doc_graph :: "(string \<times> string) list"

text \<open>
  The loop of \<open>_string_tree\<close> over \<open>self.tree.items()\<close> (lines 260-264). For a key other
  than the start whose value is None, \<open>v._str_key()\<close> raises AttributeError.
\<close>

fun string_graph_loop ::
  "pose_codec \<Rightarrow> pose option \<Rightarrow> (string \<times> string) list \<Rightarrow> (pose \<times> pose option) list \<Rightarrow>
   error + (string \<times> string) list" where
  "string_graph_loop codec st string_graph [] = Inr string_graph"
| "string_graph_loop codec st string_graph ((k, v) # rest) =
     (if Some k = st
      then string_graph_loop codec st (AList.update (str_key codec k) [] string_graph) rest
      else (case v of
              None \<Rightarrow> Inl AttributeError
            | Some v' \<Rightarrow>
                string_graph_loop codec st
                  (AList.update (str_key codec k) (str_key codec v') string_graph) rest))"

text \<open>\<open>_get_best_path\<close> (lines 233-236).\<close>

definition get_best_path :: "'a planner_scheme \<Rightarrow> (error + pose option list) option" where
  "get_best_path s =
     (case best_goal_node s of
        None \<Rightarrow> Some (Inr [])
      | Some b \<Rightarrow> try_then (get_path_to_start s b) (\<lambda>path. Some (Inr (map Some path @ [goal s]))))"

text \<open>The key of \<open>self._start\<close>, \<open>self._goal\<close> or a path element; None has no \<open>_str_key\<close>.\<close>

definition key_of :: "pose_codec \<Rightarrow> pose option \<Rightarrow> error + string" where
  "key_of codec p = (case p of None \<Rightarrow> Inl AttributeError | Some q \<Rightarrow> Inr (str_key codec q))"

fun keys_of :: "pose_codec \<Rightarrow> pose option list \<Rightarrow> error + string list" where
  "keys_of codec [] = Inr []"
| "keys_of codec (p # ps) =
     and_then (key_of codec p) (\<lambda>k. and_then (keys_of codec ps) (\<lambda>ks. Inr (k # ks)))"

text \<open>
  \<open>_string_tree\<close> (lines 254-284): the document, and the planner with the cache that
  the cost call has filled. The cost to the goal is \<open>_cost_from_to\<close> with its default
  flags.
\<close>

definition string_tree ::
  "cost_model \<Rightarrow> pose_codec \<Rightarrow> 'a planner_scheme \<Rightarrow>
   (error + string_tree_doc \<times> 'a planner_scheme) option" where
  "string_tree cm codec s =
     (case string_graph_loop codec (start s) [] (tree s) of Inl e \<Rightarrow> Some (Inl e) | Inr string_graph \<Rightarrow>
     (case key_of codec (start s) of Inl e \<Rightarrow> Some (Inl e) | Inr start_key \<Rightarrow>
     (case key_of codec (goal s) of Inl e \<Rightarrow> Some (Inl e) | Inr goal_key \<Rightarrow>
       try_then
         (case best_goal_node s of
            None \<Rightarrow> Some (Inr ([], - 1, s))
          | Some b \<Rightarrow>
              try_then (cost_from_start cm s b) (\<lambda>(c, s1).
                (case goal s1 of
                   None \<Rightarrow> Some (Inl AttributeError)
                 | Some g \<Rightarrow> Some (Inr (str_key codec b, c + fst (cost_from_to cm b g False), s1)))))
         (\<lambda>(best_key, cost, s1).
            try_then (get_best_path s1) (\<lambda>best_path.
              (case keys_of codec best_path of
                 Inl e \<Rightarrow> Some (Inl e)
               | Inr raw \<Rightarrow>
                   Some (Inr (\<lparr> doc_start = start_key, doc_goal = goal_key,
                                doc_best_goal_node = best_key, doc_cost = cost,
                                doc_best_path_raw = raw, doc_graph = string_graph \<rparr>, s1))))))))"

text \<open>
  What \<open>json.load\<close> gives for a checkpoint file: an error for text that is no JSON, or
  the fields of the document the loader reads, None for a field that is missing. A
  checkpoint is the parsed file with the number its name starts with (None when the
  name has no such number).
\<close>

record json_doc =
  jd_start :: "string option"
  jd_goal :: "string option"
  jd_best_goal_node :: "string option"
  jd_graph :: "(string \<times> string) list option"

record checkpoint =
  ck_prefix :: "int option"
  ck_parsed :: "error + json_doc"

text \<open>The document as \<open>json.dump\<close> writes it and \<open>json.load\<close> reads it back.\<close>

definition written :: "string_tree_doc \<Rightarrow> json_doc" where
  "written d =
     \<lparr> jd_start = Some (doc_start d), jd_goal = Some (doc_goal d),
       jd_best_goal_node = Some (doc_best_goal_node d), jd_graph = Some (doc_graph d) \<rparr>"

text \<open>Reading a key of the loaded dictionary: KeyError when it is missing.\<close>

definition field_of :: "'a option \<Rightarrow> error + 'a" where
  "field_of f = (case f of None \<Rightarrow> Inl KeyError | Some v \<Rightarrow> Inr v)"

text \<open>
  The loop of \<open>_load_tree_from_json\<close> over the graph (lines 209-222). The key
  \<open>"best_goal_node"\<close> is read in every pass.
\<close>

fun load_loop ::
  "pose_codec \<Rightarrow> json_doc \<Rightarrow> string \<Rightarrow> 'a planner_scheme \<Rightarrow> (string \<times> string) list \<Rightarrow>
   error + 'a planner_scheme" where
  "load_loop codec doc start_str s [] = Inr s"
| "load_loop codec doc start_str s ((k, v) # rest) =
     and_then (str_to_pt codec k) (\<lambda>pt.
     and_then (field_of (jd_best_goal_node doc)) (\<lambda>best.
       let s1 = (if k = best then s\<lparr>best_goal_node := Some pt\<rparr> else s)
       in if v = [] then load_loop codec doc start_str s1 rest
          else if v = start_str then
            and_then (add_to_grid_hash (s1\<lparr>tree := AList.update pt (start s1) (tree s1)\<rparr>) pt)
              (\<lambda>s2. load_loop codec doc start_str s2 rest)
          else
            and_then (str_to_pt codec v) (\<lambda>pt_v.
            and_then (add_to_grid_hash (s1\<lparr>tree := AList.update pt (Some pt_v) (tree s1)\<rparr>) pt)
              (\<lambda>s2. load_loop codec doc start_str s2 rest))))"

text \<open>
  Lines 195-226 for the file that was chosen. On the raster planner \<open>_set_offsets\<close>
  does nothing.
\<close>

definition load_checkpoint ::
  "pose_codec \<Rightarrow> 'a planner_scheme \<Rightarrow> checkpoint \<Rightarrow> error + 'a planner_scheme" where
  "load_checkpoint codec s ck =
     and_then (ck_parsed ck) (\<lambda>latest_string_tree.
     and_then (field_of (jd_start latest_string_tree)) (\<lambda>start_str.
     and_then (if start s = None
               then and_then (str_to_pt codec start_str) (\<lambda>p. Inr (s\<lparr>start := Some p\<rparr>))
               else Inr s) (\<lambda>s1.
     and_then (field_of (jd_goal latest_string_tree)) (\<lambda>goal_str.
     and_then (if goal s1 = None
               then and_then (str_to_pt codec goal_str) (\<lambda>p. Inr (s1\<lparr>goal := Some p\<rparr>))
               else Inr s1) (\<lambda>s2.
     and_then (field_of (jd_graph latest_string_tree)) (\<lambda>graph.
     and_then (load_loop codec latest_string_tree start_str s2 graph) (\<lambda>s3.
     (case ck_prefix ck of
        None \<Rightarrow> Inl ValueError
      | Some n \<Rightarrow> Inr (s3\<lparr>start_iteration := n + 1\<rparr>)))))))))"

text \<open>
  The last element of \<open>sorted(existing_jsons, key=get_num_iterations)\<close> (lines 190-191):
  the file with the greatest number, the last of them in the listing among equals;
  ValueError for a name without a number.
\<close>

fun latest_from :: "checkpoint \<Rightarrow> int \<Rightarrow> checkpoint list \<Rightarrow> error + checkpoint" where
  "latest_from best n [] = Inr best"
| "latest_from best n (c # cs) =
     (case ck_prefix c of
        None \<Rightarrow> Inl ValueError
      | Some m \<Rightarrow> if n \<le> m then latest_from c m cs else latest_from best n cs)"

definition latest_json :: "checkpoint list \<Rightarrow> error + checkpoint" where
  "latest_json cs =
     (case cs of
        [] \<Rightarrow> Inl IndexError
      | c # rest \<Rightarrow> (case ck_prefix c of None \<Rightarrow> Inl ValueError | Some n \<Rightarrow> latest_from c n rest))"

text \<open>
  \<open>_load_tree_from_json\<close> (lines 182-226). \<open>json_path\<close> is the file the argument names
  (None for the argument None), \<open>existing_jsons\<close> the files \<open>glob\<close> finds in the json
  directory. The attribute \<open>_json_dir\<close> exists only when the planner was built with a
  directory.
\<close>

definition load_tree_from_json ::
  "pose_codec \<Rightarrow> 'a planner_scheme \<Rightarrow> checkpoint option \<Rightarrow> checkpoint list \<Rightarrow>
   error + 'a planner_scheme" where
  "load_tree_from_json codec s json_path existing_jsons =
     (case json_path of
        Some ck \<Rightarrow> load_checkpoint codec s ck
      | None \<Rightarrow>
          (case directory s of
             None \<Rightarrow> Inl AttributeError
           | Some d \<Rightarrow>
               if existing_jsons = [] then Inr s
               else and_then (latest_json existing_jsons) (load_checkpoint codec s)))"

text \<open>
  A document is complete when it has the keys the loader reads: \<open>start\<close>, \<open>goal\<close>,
  \<open>graph\<close>, and \<open>best_goal_node\<close> unless the graph is empty.
\<close>

definition doc_complete :: "json_doc \<Rightarrow> bool" where
  "doc_complete d =
     (jd_start d \<noteq> None \<and> jd_goal d \<noteq> None \<and> jd_graph d \<noteq> None \<and>
      (jd_graph d = Some [] \<or> jd_best_goal_node d \<noteq> None))"

text \<open>
  Modelled from the spec: the pose key \<open>"{x}_{y}_{z}_{heading}"\<close> of section 6 and a
  constructor that stores the four numbers, for the numbers 0 to 3, which Python
  prints as \<open>0.0\<close> to \<open>3.0\<close> and reads back from that text; other numbers are outside
  the table.
\<close>

definition show_small :: "real \<Rightarrow> string" where
  "show_small r =
     (if r = 0 then ''0.0'' else if r = 1 then ''1.0'' else if r = 2 then ''2.0''
      else if r = 3 then ''3.0'' else ''nan'')"

definition read_small :: "string \<Rightarrow> real option" where
  "read_small t =
     (if t = ''0.0'' then Some 0 else if t = ''1.0'' then Some 1 else if t = ''2.0'' then Some 2
      else if t = ''3.0'' then Some 3 else None)"

definition small_codec :: pose_codec where
  "small_codec =
     \<lparr> str_key = (\<lambda>p. show_small (pt_x p) @ ''_'' @ show_small (pt_y p) @ ''_'' @
                        show_small (pt_z p) @ ''_'' @ show_small (heading p)),
       float_of = read_small,
       point_heading = (\<lambda>(x, z, y) h. \<lparr>pt_x = x, pt_y = y, pt_z = z, heading = h\<rparr>) \<rparr>"

section \<open>Writing a checkpoint and reading it back\<close>

text \<open>
  The grid hash accepts a pose when both offsets are set and the cell size is not zero.
\<close>

definition grid_ready :: "'a planner_scheme \<Rightarrow> bool" where
  "grid_ready s = (x_min s \<noteq> None \<and> y_min s \<noteq> None \<and> near_threshold s \<noteq> 0)"

text \<open>
  The entry of the written graph for an entry of the tree: the key of the child, and
  the key of the parent or the empty string.
\<close>

definition encode_entry :: "pose_codec \<Rightarrow> pose \<times> pose option \<Rightarrow> string \<times> string" where
  "encode_entry codec e =
     (str_key codec (fst e), case snd e of None \<Rightarrow> [] | Some v \<Rightarrow> str_key codec v)"

text \<open>
  A planner with the start at \<open>(2, 1)\<close> and one node at \<open>(1, 1)\<close> under it, the document
  \<open>_string_tree\<close> writes for it, and the planner the loader builds from that document.
\<close>

definition two_node_planner :: planner where
  "two_node_planner = unit_planner
     \<lparr> start := Some start_pose, goal := Some goal_pose,
       tree := [(start_pose, None), (pose_at 1 1, Some start_pose)],
       cost_from_parent := [start_pose \<mapsto> 0, pose_at 1 1 \<mapsto> 1],
       grid_hash := (\<lambda>c. [])((2, 1) := [start_pose], (1, 1) := [pose_at 1 1]) \<rparr>"

definition two_node_doc :: string_tree_doc where
  "two_node_doc =
     \<lparr> doc_start = ''2.0_1.0_0.0_0.0'', doc_goal = ''3.0_3.0_0.0_0.0'',
       doc_best_goal_node = [], doc_cost = - 1, doc_best_path_raw = [],
       doc_graph = [(''2.0_1.0_0.0_0.0'', []), (''1.0_1.0_0.0_0.0'', ''2.0_1.0_0.0_0.0'')] \<rparr>"

definition reloaded_planner :: planner where
  "reloaded_planner = unit_planner
     \<lparr> start := Some start_pose, goal := Some goal_pose,
       tree := [(pose_at 1 1, Some start_pose)],
       grid_hash := (\<lambda>c. [])((1, 1) := [pose_at 1 1]),
       start_iteration := 11 \<rparr>"

section \<open>The potential field sampler\<close>

text \<open>
  A potential is a finite number or plus infinity (numpy's \<open>inf\<close>); with the default
  parameters of the sampler no other value arises.
\<close>

datatype ext = Fin real | PInf

fun ext_add :: "ext \<Rightarrow> ext \<Rightarrow> ext" where
  "ext_add (Fin a) (Fin b) = Fin (a + b)"
| "ext_add _ _ = PInf"

fun ext_less :: "ext \<Rightarrow> ext \<Rightarrow> bool" where
  "ext_less (Fin a) (Fin b) = (a < b)"
| "ext_less (Fin a) PInf = True"
| "ext_less PInf _ = False"

text \<open>
  The repulsive potential of one cell (lines 935-949) for a positive \<open>eta\<close>: inside the
  radius \<open>rho0\<close> it is \<open>0.5 * eta * (1 / rho - 1 / rho0) ** 2\<close>, where numpy gives \<open>inf\<close>
  for \<open>1 / 0\<close>; outside it is 0.
\<close>

definition U_rep :: "real \<Rightarrow> real \<Rightarrow> real \<Rightarrow> ext" where
  "U_rep eta rho0 rho =
     (if rho \<le> rho0
      then (if rho = 0 then PInf else Fin (1 / 2 * eta * (1 / rho - 1 / rho0)\<^sup>2))
      else Fin 0)"

text \<open>The attractive potential of one cell (lines 976-980).\<close>

definition U_att :: "real \<Rightarrow> real \<Rightarrow> real \<Rightarrow> real" where
  "U_att xi sigma0 sigma =
     (if sigma \<le> sigma0 then 1 / 2 * xi * sigma\<^sup>2 else xi * sigma0 * (sigma - 1 / 2 * sigma0))"

text \<open>
  The world coordinates of the columns and rows of the window (lines 909-912 and
  953-956): \<open>x_coords\<close> is indexed by the column, \<open>y_coords\<close> by the row.
\<close>

definition x_coord :: "'a png_planner_scheme \<Rightarrow> real \<times> real \<Rightarrow> nat \<Rightarrow> real" where
  "x_coord s center c =
     fst center - real_of_int (local_map_size s div 2) * cell_size s + real c * cell_size s"

definition y_coord :: "'a png_planner_scheme \<Rightarrow> real \<times> real \<Rightarrow> nat \<Rightarrow> real" where
  "y_coord s center r =
     snd center - real_of_int (local_map_size s div 2) * cell_size s + real r * cell_size s"

text \<open>
  \<open>dist_to_center\<close> of a cell (lines 1002-1005).
\<close>

definition dist_to_center :: "'a png_planner_scheme \<Rightarrow> real \<times> real \<Rightarrow> nat \<Rightarrow> nat \<Rightarrow> real" where
  "dist_to_center s center r c =
     sqrt ((x_coord s center c - fst center)\<^sup>2 + (y_coord s center r - snd center)\<^sup>2)"

text \<open>
  \<open>U_total\<close> of a cell after the mask of line 1009, with the default parameters of
  the sampler (the only call, lines 416-418, passes none): \<open>eta = 0.5\<close>, \<open>xi = 1\<close>,
  \<open>rho0 = 1\<close>, \<open>sigma0 = 1\<close>, \<open>eta_node = 1\<close>, \<open>rho0_node = 0.5\<close>. \<open>edt\<close> stands for scipy's
  \<open>distance_transform_edt\<close>, which is given the array that is 0 on the obstacle cells
  (label 1), or on the node cells (label 2), and 1 elsewhere.
\<close>

definition total_potential ::
  "'a png_planner_scheme \<Rightarrow> (int ndarray \<Rightarrow> nat \<Rightarrow> nat \<Rightarrow> real) \<Rightarrow> int ndarray \<Rightarrow>
   real \<times> real \<Rightarrow> real \<times> real \<Rightarrow> nat \<times> nat \<Rightarrow> ext" where
  "total_potential s edt local_map center goal_pos rc =
     (case rc of (r, c) \<Rightarrow>
        let not_obstacle = \<lparr> nrows = nrows local_map, ncols = ncols local_map,
                              cell_at = (\<lambda>r' c'. if cell_at local_map r' c' = 1 then 0 else 1) \<rparr>;
            not_node = \<lparr> nrows = nrows local_map, ncols = ncols local_map,
                          cell_at = (\<lambda>r' c'. if cell_at local_map r' c' = 2 then 0 else 1) \<rparr>;
            rho_obs = edt not_obstacle r c * cell_size s;
            rho_node = edt not_node r c * cell_size s;
            sigma = sqrt ((x_coord s center c - fst goal_pos)\<^sup>2 +
                          (y_coord s center r - snd goal_pos)\<^sup>2);
            U_total = ext_add (ext_add (U_rep (1 / 2) 1 rho_obs) (U_rep 1 (1 / 2) rho_node))
                        (Fin (U_att 1 1 sigma))
        in if dist_to_center s center r c > max_distance s then PInf else U_total)"

text \<open>The cells of the window in row-major order, and numpy's \<open>min\<close> over them.\<close>

definition window_cells :: "int ndarray \<Rightarrow> (nat \<times> nat) list" where
  "window_cells local_map = List.product [0..<nrows local_map] [0..<ncols local_map]"

fun ext_min_from :: "ext \<Rightarrow> ext list \<Rightarrow> ext" where
  "ext_min_from m [] = m"
| "ext_min_from m (x # xs) = ext_min_from (if ext_less x m then x else m) xs"

text \<open>
  The block of lines 1016-1032 that writes a picture of the field: the test divides by
  \<open>_visualize_iterations\<close>, and \<open>osp.join(self._directory, "fields")\<close> raises TypeError
  when the planner has no directory. Writing the file itself is left out.
\<close>

definition field_picture :: "'a png_planner_scheme \<Rightarrow> error + unit" where
  "field_picture s =
     (case iteration_count s of
        None \<Rightarrow> Inl AttributeError
      | Some i \<Rightarrow>
          (case visualize_iterations s of
             None \<Rightarrow> Inl AttributeError
           | Some vi \<Rightarrow>
               if vi = 0 then Inl ZeroDivisionError
               else if i mod vi = 0
               then (case directory s of None \<Rightarrow> Inl TypeError | Some d \<Rightarrow> Inr ())
               else Inr ()))"

text \<open>
  \<open>_sample_point_by_local_map\<close> (lines 897-1046). \<open>np.where(U_total == min_U_total)\<close>
  lists the matching cells in row-major order, and the first one is taken.
\<close>

definition sample_point_by_local_map ::
  "'a png_planner_scheme \<Rightarrow> (int ndarray \<Rightarrow> nat \<Rightarrow> nat \<Rightarrow> real) \<Rightarrow> int ndarray \<Rightarrow>
   real \<times> real \<Rightarrow> real \<times> real \<Rightarrow> error + real \<times> real" where
  "sample_point_by_local_map s edt local_map local_map_center_pos goal_pos_global =
     (let U = total_potential s edt local_map local_map_center_pos goal_pos_global;
          cells = window_cells local_map
      in if list_all (\<lambda>rc. U rc = PInf) cells then Inr local_map_center_pos
         else
           and_then (field_picture s) (\<lambda>_.
             (case map U cells of
                [] \<Rightarrow> Inl ValueError
              | u # us \<Rightarrow>
                  (case find (\<lambda>rc. U rc = ext_min_from u us) cells of
                     None \<Rightarrow> Inl IndexError
                   | Some (r, c) \<Rightarrow>
                       Inr (x_coord s local_map_center_pos c, y_coord s local_map_center_pos r)))))"

text \<open>
  scipy's \<open>distance_transform_edt\<close> on an array that has a zero cell: the distance, in
  cells, from a cell to the nearest zero cell.
\<close>

definition edt_nearest_zero :: "int ndarray \<Rightarrow> nat \<Rightarrow> nat \<Rightarrow> real" where
  "edt_nearest_zero a r c =
     (let zeros = filter (\<lambda>(r', c'). cell_at a r' c' = 0) (List.product [0..<nrows a] [0..<ncols a]);
          d = (\<lambda>(r', c'). sqrt ((real r - real r')\<^sup>2 + (real c - real c')\<^sup>2))
      in (case zeros of [] \<Rightarrow> 0 | z # zs \<Rightarrow> fold (\<lambda>z' m. min (d z') m) zs (d z)))"

text \<open>
  A raster planner without an output directory, half a metre per pixel (a window of
  three by three cells), and a window with an obstacle in one corner, a node in the
  opposite corner and free cells elsewhere.
\<close>

definition half_params :: params where
  "half_params =
     \<lparr> MAX_LINEAR_VELOCITY = 1, MAX_ANGULAR_VELOCITY = 90, NEAR_THRESHOLD = 3 / 2,
       MAX_DISTANCE = 1, OUT_DIR = None, METERS_PER_PIXEL = 1 / 2, AGENT_RADIUS = 1 / 2 \<rparr>"

definition corner_window :: "int ndarray" where
  "corner_window =
     \<lparr> nrows = 3, ncols = 3,
       cell_at = (\<lambda>r c. if r = 0 \<and> c = 0 then 1 else if r = 2 \<and> c = 2 then 2 else 0) \<rparr>"

section \<open>Results that may raise\<close>

lemma and_then_Inr_iff:
  "(and_then r f = Inr y) = (\<exists>v. r = Inr v \<and> f v = Inr y)"
  by (cases r) (simp_all add: and_then_def)

lemma and_then_Inr [simp]: "and_then (Inr v) f = f v"
  by (simp add: and_then_def)

lemma and_then_Inl [simp]: "and_then (Inl e) f = Inl e"
  by (simp add: and_then_def)

section \<open>Grid hash: the bucket invariant\<close>


lemma add_to_grid_hash_Inr:
  assumes "add_to_grid_hash s q = Inr s'"
  shows "\<exists>c. cell_of s q = Inr c \<and> s' = s\<lparr>grid_hash := (grid_hash s)(c := grid_hash s c @ [q])\<rparr>"
  using assms by (auto simp: add_to_grid_hash_def and_then_Inr_iff)


lemma add_to_grid_hash_fields:
  assumes "add_to_grid_hash s q = Inr s'"
  shows "near_threshold s' = near_threshold s \<and> x_min s' = x_min s \<and> y_min s' = y_min s"
  using add_to_grid_hash_Inr [OF assms] by auto


lemma add_all_fields:
  "add_all s qs = Inr s' \<Longrightarrow>
   near_threshold s' = near_threshold s \<and> x_min s' = x_min s \<and> y_min s' = y_min s"
proof (induction qs arbitrary: s)
  case Nil
  then show ?case by simp
next
  case (Cons q qs)
  from Cons.prems obtain s1 where
    s1: "add_to_grid_hash s q = Inr s1" and rest: "add_all s1 qs = Inr s'"
    by (auto simp: and_then_Inr_iff)
  from Cons.IH [OF rest] add_to_grid_hash_fields [OF s1] show ?case by simp
qed


section \<open>Claim C2: what the four cells of \<open>_get_near_pts\<close> cover\<close>










section \<open>Walks and \<open>_cost_from_start\<close>\<close>

lemma try_then_simps [simp]:
  "try_then None f = None"
  "try_then (Some (Inl e)) f = Some (Inl e)"
  "try_then (Some (Inr v)) f = f v"
  by (simp_all add: try_then_def)

lemma walk_nonempty: "walk tr st ec p path c \<Longrightarrow> path \<noteq> [] \<and> last path = p"
  by (induction rule: walk.induct) simp_all

lemma walk_path_loop:
  "walk tr st ec p path c \<Longrightarrow>
   path_to_start_loop tr (Some st) p (p # rest) = Some (Inr (path @ rest))"
proof (induction arbitrary: rest rule: walk.induct)
  case walk_start
  show ?case by (subst path_to_start_loop.simps) simp
next
  case (walk_step p parent path c)
  have "path_to_start_loop tr (Some st) p (p # rest) =
        path_to_start_loop tr (Some st) parent (parent # p # rest)"
    using walk_step.hyps(1,2) by (subst path_to_start_loop.simps) simp
  also have "\<dots> = Some (Inr (path @ p # rest))" by (rule walk_step.IH)
  finally show ?case by simp
qed

lemma walk_get_path:
  assumes "start s = Some st" "walk (tree s) st ec p path c"
  shows "get_path_to_start s p = Some (Inr path)"
  using walk_path_loop [OF assms(2), of "[]"] assms(1) by (simp add: get_path_to_start_def)

lemma walk_deterministic:
  "walk tr st ec p path c \<Longrightarrow> walk tr st ec p path' c' \<Longrightarrow> path' = path \<and> c' = c"
proof (induction arbitrary: path' c' rule: walk.induct)
  case walk_start
  then show ?case by (auto elim: walk.cases)
next
  case (walk_step p parent path c)
  from walk_step.prems walk_step.hyps(1,2) obtain path0 c0 where
    "path' = path0 @ [p]" "c' = c0 + ec parent p" "walk tr st ec parent path0 c0"
    by (auto elim: walk.cases)
  with walk_step.IH show ?case by blast
qed

lemma cost_loop_append:
  "cost_loop cft cache cost (xs @ ys) =
   cost_loop cft (fst (cost_loop cft cache cost xs)) (snd (cost_loop cft cache cost xs)) ys"
proof (induction xs arbitrary: cache cost)
  case Nil
  then show ?case by simp
next
  case (Cons x xs)
  obtain parent child where x: "x = (parent, child)" by (cases x)
  show ?case
  proof (cases "cache child")
    case None
    let ?cache = "cache(child \<mapsto> cft parent child)"
    have a: "cost_loop cft cache cost ((x # xs) @ ys) =
             cost_loop cft ?cache (cost + cft parent child) (xs @ ys)"
      unfolding x using None by simp
    have b: "cost_loop cft cache cost (x # xs) =
             cost_loop cft ?cache (cost + cft parent child) xs"
      unfolding x using None by simp
    show ?thesis unfolding a b by (rule Cons.IH)
  next
    case (Some v)
    have a: "cost_loop cft cache cost ((x # xs) @ ys) = cost_loop cft cache (cost + v) (xs @ ys)"
      unfolding x using Some by simp
    have b: "cost_loop cft cache cost (x # xs) = cost_loop cft cache (cost + v) xs"
      unfolding x using Some by simp
    show ?thesis unfolding a b by (rule Cons.IH)
  qed
qed

lemma zip_path_snoc:
  assumes "path \<noteq> []"
  shows "zip (butlast (path @ [p])) (tl (path @ [p])) =
         zip (butlast path) (tl path) @ [(last path, p)]"
proof -
  have a: "butlast (path @ [p]) = butlast path @ [last path]" using assms by simp
  have b: "tl (path @ [p]) = tl path @ [p]" using assms by simp
  have l: "length (butlast path) = length (tl path)" by simp
  show ?thesis unfolding a b using l by simp
qed

lemma cache_fill_refl: "cache_fill cm tr cache cache"
  by (simp add: cache_fill_def)

lemma cache_fill_edge:
  assumes "cache_fill cm tr cache cache'" "map_of tr child = Some (Some parent)"
  shows "edge_cost cm cache' parent child = edge_cost cm cache parent child"
  using assms unfolding cache_fill_def edge_cost_def
  by (metis option.case(1) option.case(2) option.inject)

lemma cache_fill_update:
  assumes "cache_fill cm tr cache cache'" "map_of tr child = Some (Some parent)"
    "cache' child = None"
  shows "cache_fill cm tr cache (cache'(child \<mapsto> fst (cost_from_to cm parent child True)))"
  using assms unfolding cache_fill_def by (metis fun_upd_apply)

text \<open>The cost loop along a walk.\<close>

lemma walk_cost_loop:
  assumes "walk tr st (edge_cost cm cache) p path c"
  shows "\<exists>cache'. cost_loop (\<lambda>a b. fst (cost_from_to cm a b True)) cache 0
             (zip (butlast path) (tl path)) = (cache', c) \<and> cache_fill cm tr cache cache'"
  using assms
proof (induction rule: walk.induct)
  case walk_start
  then show ?case by (simp add: cache_fill_refl)
next
  case (walk_step p parent path c)
  let ?cft = "\<lambda>a b. fst (cost_from_to cm a b True)"
  from walk_step.IH obtain cache1 where
    pre: "cost_loop ?cft cache 0 (zip (butlast path) (tl path)) = (cache1, c)"
    and fill: "cache_fill cm tr cache cache1" by blast
  from walk_nonempty [OF walk_step.hyps(3)] have ne: "path \<noteq> []" and lst: "last path = parent"
    by simp_all
  have e: "edge_cost cm cache1 parent p = edge_cost cm cache parent p"
    by (rule cache_fill_edge [OF fill walk_step.hyps(2)])
  show ?case
  proof (cases "cache1 p")
    case None
    have "cost_loop ?cft cache 0 (zip (butlast (path @ [p])) (tl (path @ [p]))) =
          (cache1(p \<mapsto> ?cft parent p), c + ?cft parent p)"
      unfolding zip_path_snoc [OF ne] cost_loop_append pre by (simp add: lst None)
    moreover have "?cft parent p = edge_cost cm cache parent p"
      using e None by (simp add: edge_cost_def)
    moreover have "cache_fill cm tr cache (cache1(p \<mapsto> ?cft parent p))"
      by (rule cache_fill_update [OF fill walk_step.hyps(2) None])
    ultimately show ?thesis by auto
  next
    case (Some v)
    have "cost_loop ?cft cache 0 (zip (butlast (path @ [p])) (tl (path @ [p]))) =
          (cache1, c + v)"
      unfolding zip_path_snoc [OF ne] cost_loop_append pre by (simp add: lst Some)
    moreover have "v = edge_cost cm cache parent p"
      using e Some by (simp add: edge_cost_def)
    ultimately show ?thesis using fill by auto
  qed
qed

lemma walk_cost_from_start:
  assumes st: "start s = Some st"
    and w: "walk (tree s) st (edge_cost cm (cost_from_parent s)) p path c"
  shows "\<exists>cache'. cost_from_start cm s p = Some (Inr (c, s\<lparr>cost_from_parent := cache'\<rparr>)) \<and>
           cache_fill cm (tree s) (cost_from_parent s) cache'"
proof -
  from walk_cost_loop [OF w] obtain cache' where
    "cost_loop (\<lambda>a b. fst (cost_from_to cm a b True)) (cost_from_parent s) 0
       (zip (butlast path) (tl path)) = (cache', c)"
    and "cache_fill cm (tree s) (cost_from_parent s) cache'" by blast
  then show ?thesis
    by (auto simp: cost_from_start_def walk_get_path [OF st w])
qed


section \<open>Claim C3: a rewiring step does not raise any cost from the start\<close>

lemma walk_cong:
  assumes "walk tr st ec p path c"
    and "\<And>q parent. map_of tr q = Some (Some parent) \<Longrightarrow> ec' parent q = ec parent q"
  shows "walk tr st ec' p path c"
  using assms
proof (induction rule: walk.induct)
  case walk_start
  show ?case by (rule walk.walk_start)
next
  case (walk_step p parent path c)
  have "walk tr st ec' p (path @ [p]) (c + ec' parent p)"
    using walk_step.hyps(1,2) walk_step.IH [OF walk_step.prems] by (rule walk.walk_step)
  with walk_step.prems [OF walk_step.hyps(2)] show ?case by simp
qed

lemma walk_cost_nonneg:
  assumes "walk tr st ec p path c" "\<And>a b. 0 \<le> ec a b"
  shows "0 \<le> c"
  using assms by (induction rule: walk.induct) (simp_all add: add_nonneg_nonneg)

text \<open>A node whose cost is below that of p does not have p on its way to the start.\<close>

lemma walk_below:
  assumes q: "walk tr st ec q path c"
    and p: "walk tr st ec p pathp cp"
    and nonneg: "\<And>a b. 0 \<le> ec a b"
    and below: "c < cp"
    and same: "\<And>x parent. x \<noteq> p \<Longrightarrow> map_of tr x = Some (Some parent) \<Longrightarrow>
                 ec' parent x = ec parent x"
  shows "walk (AList.update p v tr) st ec' q path c"
  using q below
proof (induction rule: walk.induct)
  case walk_start
  show ?case by (rule walk.walk_start)
next
  case (walk_step x parent path c)
  have "0 \<le> ec parent x" by (rule nonneg)
  with walk_step.prems have c: "c < cp" by simp
  have xp: "x \<noteq> p"
  proof
    assume "x = p"
    with walk.walk_step [OF walk_step.hyps(1,2,3)] p
    have "cp = c + ec parent x" using walk_deterministic by blast
    with walk_step.prems show False by simp
  qed
  then have m: "map_of (AList.update p v tr) x = Some (Some parent)"
    using walk_step.hyps(2) by (simp add: update_conv')
  have "walk (AList.update p v tr) st ec' x (path @ [x]) (c + ec' parent x)"
    using walk_step.hyps(1) m walk_step.IH [OF c] by (rule walk.walk_step)
  with same [OF xp walk_step.hyps(2)] show ?case by simp
qed

lemma walk_rewired:
  assumes q: "walk tr st ec q path c"
    and p: "walk tr st ec p pathp cp"
    and r: "walk tr st ec rand pathr cr"
    and pst: "p \<noteq> st"
    and nonneg: "\<And>a b. 0 \<le> ec a b"
    and cnew: "0 \<le> cnew" "cr + cnew < cp" "ec' rand p = cnew"
    and same: "\<And>x parent. x \<noteq> p \<Longrightarrow> map_of tr x = Some (Some parent) \<Longrightarrow>
                 ec' parent x = ec parent x"
  shows "\<exists>path' c'. walk (AList.update p (Some rand) tr) st ec' q path' c' \<and> c' \<le> c"
  using q
proof (induction rule: walk.induct)
  case walk_start
  show ?case using walk.walk_start by force
next
  case (walk_step x parent path c)
  let ?tr = "AList.update p (Some rand) tr"
  show ?case
  proof (cases "x = p")
    case True
    from cnew have "cr < cp" by simp
    from walk_below [OF r p nonneg this same]
    have wr: "walk ?tr st ec' rand pathr cr" by blast
    have m: "map_of ?tr p = Some (Some rand)" by (simp add: update_conv')
    have "walk ?tr st ec' p (pathr @ [p]) (cr + ec' rand p)"
      using pst m wr by (rule walk.walk_step)
    moreover have "cp = c + ec parent x"
      using walk.walk_step [OF walk_step.hyps(1,2,3)] p True walk_deterministic by blast
    ultimately show ?thesis using cnew True by force
  next
    case False
    from walk_step.IH obtain path' c' where
      w: "walk ?tr st ec' parent path' c'" and le: "c' \<le> c" by blast
    have m: "map_of ?tr x = Some (Some parent)"
      using False walk_step.hyps(2) by (simp add: update_conv')
    have "walk ?tr st ec' x (path' @ [x]) (c' + ec' parent x)"
      using walk_step.hyps(1) m w by (rule walk.walk_step)
    with same [OF False walk_step.hyps(2)] le show ?thesis by force
  qed
qed


lemma edge_cost_nonneg:
  assumes "costs_nonneg cm s"
  shows "0 \<le> edge_cost cm (cost_from_parent s) a b"
  using assms unfolding costs_nonneg_def edge_cost_def by (auto split: option.splits)

lemma cache_fill_trans_edge:
  assumes "cache_fill cm tr cache cache1" "cache_fill cm tr cache1 cache2"
    "map_of tr child = Some (Some parent)"
  shows "edge_cost cm cache2 parent child = edge_cost cm cache parent child"
  using cache_fill_edge [OF assms(1,3)] cache_fill_edge [OF assms(2,3)] by simp

text \<open>
  One pass of the rewiring loop body on a tree whose keys all have a walk: the pass
  returns, keeps the keys and the entry of the start, and gives every node a walk in
  the new tree that costs no more than before.
\<close>

lemma rewire_step_walks:
  assumes st: "start s = Some st"
    and all: "\<forall>q\<in>fst ` set (tree s).
               \<exists>path c. walk (tree s) st (edge_cost cm (cost_from_parent s)) q path c"
    and nn: "costs_nonneg cm s"
    and rand: "rand_pt \<in> fst ` set (tree s)"
    and pt: "pt \<in> fst ` set (tree s)"
  shows "\<exists>s'. rewire_step cm s rand_pt pt = Some (Inr s') \<and> start s' = Some st \<and>
           fst ` set (tree s') = fst ` set (tree s) \<and>
           map_of (tree s') st = map_of (tree s) st \<and>
           (\<forall>q path c. walk (tree s) st (edge_cost cm (cost_from_parent s)) q path c \<longrightarrow>
              (\<exists>path' c'. walk (tree s') st (edge_cost cm (cost_from_parent s')) q path' c' \<and>
                 c' \<le> c))"
proof -
  let ?tr = "tree s"
  let ?ec = "edge_cost cm (cost_from_parent s)"
  show ?thesis
  proof (cases "Some pt = start s")
    case True
    then have "rewire_step cm s rand_pt pt = Some (Inr s)" by (simp add: rewire_step_def)
    with st show ?thesis by force
  next
    case False
    with st have pst: "pt \<noteq> st" by simp
    from all rand obtain pathr cr where wr: "walk ?tr st ?ec rand_pt pathr cr" by blast
    from all pt obtain pathp cp where wp: "walk ?tr st ?ec pt pathp cp" by blast
    from walk_cost_from_start [OF st wr] obtain cache1 where
      c1: "cost_from_start cm s rand_pt = Some (Inr (cr, s\<lparr>cost_from_parent := cache1\<rparr>))"
      and f1: "cache_fill cm ?tr (cost_from_parent s) cache1" by blast
    let ?s1 = "s\<lparr>cost_from_parent := cache1\<rparr>"
    have st1: "start ?s1 = Some st" using st by simp
    have wp1: "walk (tree ?s1) st (edge_cost cm (cost_from_parent ?s1)) pt pathp cp"
      using walk_cong [OF wp, of "edge_cost cm cache1"] cache_fill_edge [OF f1] by simp
    from walk_cost_from_start [OF st1 wp1] obtain cache2 where
      c2: "cost_from_start cm ?s1 pt = Some (Inr (cp, ?s1\<lparr>cost_from_parent := cache2\<rparr>))"
      and f2: "cache_fill cm ?tr cache1 cache2" by auto
    let ?s2 = "s\<lparr>cost_from_parent := cache2\<rparr>"
    let ?cnew = "fst (cost_from_to cm rand_pt pt True)"
    have ec2: "edge_cost cm cache2 parent child = ?ec parent child"
      if "map_of ?tr child = Some (Some parent)" for parent child
      by (rule cache_fill_trans_edge [OF f1 f2 that])
    show ?thesis
    proof (cases "cr + ?cnew < cp \<and> path_exists cm rand_pt pt")
      case no: False
      have step: "rewire_step cm s rand_pt pt = Some (Inr ?s2)"
        using False no by (auto simp: rewire_step_def c1 c2 Let_def)
      have "\<exists>path' c'. walk (tree ?s2) st (edge_cost cm (cost_from_parent ?s2)) q path' c' \<and> c' \<le> c"
        if w: "walk ?tr st ?ec q path c" for q path c
      proof -
        have "walk (tree ?s2) st (edge_cost cm (cost_from_parent ?s2)) q path c"
          using walk_cong [OF w, of "edge_cost cm cache2"] ec2 by simp
        then show ?thesis by blast
      qed
      with step st show ?thesis by force
    next
      case yes: True
      let ?cache' = "cache2(pt \<mapsto> ?cnew)"
      let ?tr' = "AList.update pt (Some rand_pt) ?tr"
      let ?s' = "?s2\<lparr>tree := ?tr', cost_from_parent := ?cache'\<rparr>"
      have step: "rewire_step cm s rand_pt pt = Some (Inr ?s')"
        using False yes by (simp add: rewire_step_def c1 c2 Let_def)
      have nonneg: "\<And>a b. 0 \<le> ?ec a b" by (rule edge_cost_nonneg [OF nn])
      have cn: "0 \<le> ?cnew" using nn by (simp add: costs_nonneg_def)
      have lt: "cr + ?cnew < cp" using yes by simp
      have enew: "edge_cost cm ?cache' rand_pt pt = ?cnew" by (simp add: edge_cost_def)
      have same: "edge_cost cm ?cache' parent x = ?ec parent x"
        if "x \<noteq> pt" "map_of ?tr x = Some (Some parent)" for x parent
      proof -
        have "edge_cost cm ?cache' parent x = edge_cost cm cache2 parent x"
          using that(1) by (simp add: edge_cost_def)
        with ec2 [OF that(2)] show ?thesis by simp
      qed
      have "\<exists>path' c'. walk (tree ?s') st (edge_cost cm (cost_from_parent ?s')) q path' c' \<and> c' \<le> c"
        if w: "walk ?tr st ?ec q path c" for q path c
        using walk_rewired [OF w wp wr pst nonneg cn lt enew same] by simp
      moreover have "fst ` set (tree ?s') = fst ` set ?tr"
        using pt by (auto simp: dom_update)
      moreover have "map_of (tree ?s') st = map_of ?tr st"
        using pst by (simp add: update_conv')
      moreover have "start ?s' = Some st" using st by simp
      ultimately show ?thesis using step by blast
    qed
  qed
qed

text \<open>
  So the rewiring pass keeps the tree well formed, and it leaves the entry of the start
  as it was (the pass skips the start, line 484).
\<close>

lemma rewire_step_tree_ok:
  assumes ok: "tree_ok cm s"
    and nn: "costs_nonneg cm s"
    and rand: "rand_pt \<in> fst ` set (tree s)"
    and pt: "pt \<in> fst ` set (tree s)"
  shows "\<exists>s'. rewire_step cm s rand_pt pt = Some (Inr s') \<and> tree_ok cm s' \<and>
           start s' = start s \<and> fst ` set (tree s') = fst ` set (tree s) \<and>
           (\<forall>st. start s = Some st \<longrightarrow> map_of (tree s') st = map_of (tree s) st)"
proof -
  from ok obtain st where st: "start s = Some st"
    and all: "\<forall>q\<in>fst ` set (tree s).
               \<exists>path c. walk (tree s) st (edge_cost cm (cost_from_parent s)) q path c"
    unfolding tree_ok_def by blast
  from rewire_step_walks [OF st all nn rand pt] obtain s' where
    s': "rewire_step cm s rand_pt pt = Some (Inr s')" "start s' = Some st"
      "fst ` set (tree s') = fst ` set (tree s)" "map_of (tree s') st = map_of (tree s) st"
      "\<forall>q path c. walk (tree s) st (edge_cost cm (cost_from_parent s)) q path c \<longrightarrow>
         (\<exists>path' c'. walk (tree s') st (edge_cost cm (cost_from_parent s')) q path' c' \<and> c' \<le> c)"
    by blast
  have "\<exists>path c. walk (tree s') st (edge_cost cm (cost_from_parent s')) q path c"
    if "q \<in> fst ` set (tree s')" for q
  proof -
    from that s'(3) all obtain path c where
      "walk (tree s) st (edge_cost cm (cost_from_parent s)) q path c" by blast
    with s'(5) show ?thesis by blast
  qed
  then have "tree_ok cm s'"
    unfolding tree_ok_def using s'(2) by blast
  with s' st show ?thesis by auto
qed

text \<open>
  C3: on a well formed tree with nonnegative edge costs, one pass of the rewiring loop
  body for the new node \<open>rand_pt\<close> and a neighbour \<open>pt\<close> returns, and afterwards
  \<open>_cost_from_start(q)\<close> is at most its value before, for every node \<open>q\<close> of the tree;
  this covers the pass that reassigns \<open>tree[pt]\<close> to the new node and the pass that
  leaves it.
\<close>

theorem rewire_step_cost_monotone:
  assumes ok: "tree_ok cm s"
    and nn: "costs_nonneg cm s"
    and rand: "rand_pt \<in> fst ` set (tree s)"
    and pt: "pt \<in> fst ` set (tree s)"
  shows "\<exists>s'. rewire_step cm s rand_pt pt = Some (Inr s') \<and>
           (\<forall>q\<in>fst ` set (tree s). \<exists>c c' s1 s2.
              cost_from_start cm s q = Some (Inr (c, s1)) \<and>
              cost_from_start cm s' q = Some (Inr (c', s2)) \<and> c' \<le> c)"
proof -
  from ok obtain st where st: "start s = Some st"
    and all: "\<forall>q\<in>fst ` set (tree s).
               \<exists>path c. walk (tree s) st (edge_cost cm (cost_from_parent s)) q path c"
    unfolding tree_ok_def by blast
  from rewire_step_walks [OF st all nn rand pt] obtain s' where
    step: "rewire_step cm s rand_pt pt = Some (Inr s')" and st': "start s' = Some st"
    and walks: "\<And>q path c. walk (tree s) st (edge_cost cm (cost_from_parent s)) q path c \<Longrightarrow>
         \<exists>path' c'. walk (tree s') st (edge_cost cm (cost_from_parent s')) q path' c' \<and> c' \<le> c"
    by blast
  have "\<exists>c c' s1 s2. cost_from_start cm s q = Some (Inr (c, s1)) \<and>
              cost_from_start cm s' q = Some (Inr (c', s2)) \<and> c' \<le> c"
    if "q \<in> fst ` set (tree s)" for q
  proof -
    from all that obtain path c where
      w: "walk (tree s) st (edge_cost cm (cost_from_parent s)) q path c" by blast
    from walks [OF w] obtain path' c' where
      w': "walk (tree s') st (edge_cost cm (cost_from_parent s')) q path' c'" and le: "c' \<le> c"
      by blast
    from walk_cost_from_start [OF st w] obtain s1 where
      "cost_from_start cm s q = Some (Inr (c, s1))" by blast
    moreover from walk_cost_from_start [OF st' w'] obtain s2 where
      "cost_from_start cm s' q = Some (Inr (c', s2))" by blast
    ultimately show ?thesis using le by blast
  qed
  with step show ?thesis by blast
qed

lemma pose_at_eq [simp]: "(pose_at a b = pose_at c d) = (a = c \<and> b = d)"
  by (auto simp: pose_at_def)

lemma shortest_open_field_nonneg:
  "0 < v \<Longrightarrow> 0 \<le> fst (cost_from_to (shortest_open_field v) a b ceh)"
  by (simp add: shortest_open_field_def euclid_2D_def)

text \<open>
  C3 on the line tree: the node at 1 costs 3 from the start through the node at 2; the
  rewiring pass for the node at 1.5 returns, and the cost of the node at 1 afterwards
  is at most 3.
\<close>

theorem rewire_step_cost_monotone_witness:
  "\<exists>s'. rewire_step (shortest_open_field 1) line_planner (pose_at (3/2) 0) (pose_at 1 0) = Some (Inr s') \<and>
        (\<exists>s1. cost_from_start (shortest_open_field 1) line_planner (pose_at 1 0) = Some (Inr (3, s1))) \<and>
        (\<exists>c' s2. cost_from_start (shortest_open_field 1) s' (pose_at 1 0) = Some (Inr (c', s2)) \<and>
                 c' \<le> 3)"
proof -
  let ?cm = "shortest_open_field 1"
  let ?S = "pose_at 0 0" and ?A = "pose_at 2 0" and ?B = "pose_at 1 0" and ?N = "pose_at (3/2) 0"
  let ?ec = "edge_cost ?cm (cost_from_parent line_planner)"
  have tr: "tree line_planner = [(?S, None), (?A, Some ?S), (?B, Some ?A), (?N, Some ?S)]"
    by (simp add: line_planner_def)
  have st: "start line_planner = Some ?S" by (simp add: line_planner_def)
  have wS: "walk (tree line_planner) ?S ?ec ?S [?S] 0" by (rule walk_start)
  have wA: "walk (tree line_planner) ?S ?ec ?A ([?S] @ [?A]) (0 + ?ec ?S ?A)"
    by (rule walk_step [OF _ _ wS]) (simp_all add: tr)
  have wB: "walk (tree line_planner) ?S ?ec ?B (([?S] @ [?A]) @ [?B]) ((0 + ?ec ?S ?A) + ?ec ?A ?B)"
    by (rule walk_step [OF _ _ wA]) (simp_all add: tr)
  have wN: "walk (tree line_planner) ?S ?ec ?N ([?S] @ [?N]) (0 + ?ec ?S ?N)"
    by (rule walk_step [OF _ _ wS]) (simp_all add: tr)
  have ok: "tree_ok ?cm line_planner"
    unfolding tree_ok_def using st wS wA wB wN by (auto simp: tr)
  have nn: "costs_nonneg ?cm line_planner"
    unfolding costs_nonneg_def using shortest_open_field_nonneg [of 1]
    by (auto simp: line_planner_def split: if_splits)
  have cB: "(0 + ?ec ?S ?A) + ?ec ?A ?B = 3"
    by (simp add: edge_cost_def line_planner_def)
  from walk_cost_from_start [OF st wB] cB obtain s1 where
    b3: "cost_from_start ?cm line_planner ?B = Some (Inr (3, s1))" by auto
  have kN: "?N \<in> fst ` set (tree line_planner)" and kB: "?B \<in> fst ` set (tree line_planner)"
    by (simp_all add: tr)
  from rewire_step_cost_monotone [OF ok nn kN kB] obtain s' where
    step: "rewire_step ?cm line_planner ?N ?B = Some (Inr s')"
    and all: "\<forall>q\<in>fst ` set (tree line_planner). \<exists>c c' s1 s2.
              cost_from_start ?cm line_planner q = Some (Inr (c, s1)) \<and>
              cost_from_start ?cm s' q = Some (Inr (c', s2)) \<and> c' \<le> c" by blast
  from all kB obtain c c' s1' s2 where
    "cost_from_start ?cm line_planner ?B = Some (Inr (c, s1'))"
    "cost_from_start ?cm s' ?B = Some (Inr (c', s2))" "c' \<le> c" by blast
  with b3 have "cost_from_start ?cm s' ?B = Some (Inr (c', s2))" "c' \<le> 3" by simp_all
  with step b3 show ?thesis by blast
qed

section \<open>Claim C4: the configuration check of the constructor\<close>

text \<open>
  C4: constructing a planner fails exactly when \<open>near_threshold < max_distance\<close>, and
  the error then carries both values; with \<open>near_threshold = max_distance\<close> or
  \<open>near_threshold > max_distance\<close> the constructor returns a planner holding the two
  values.
\<close>

theorem RRTStarBase_init_fails_iff:
  "((\<exists>e. RRTStarBase_init mlv mav nt md dir = Inl e) = (nt < md)) \<and>
   (nt < md \<longrightarrow> RRTStarBase_init mlv mav nt md dir = Inl (AssertionError nt md)) \<and>
   (nt = md \<or> md < nt \<longrightarrow>
      (\<exists>s. RRTStarBase_init mlv mav nt md dir = Inr s \<and>
           near_threshold s = nt \<and> max_distance s = md))"
proof (cases "md \<le> nt")
  case True
  then show ?thesis by (auto simp: RRTStarBase_init_def)
next
  case False
  then show ?thesis by (auto simp: RRTStarBase_init_def)
qed

text \<open>
  C4 at the thresholds \<open>(1, 1.5)\<close>, where construction fails, and at \<open>(1, 1)\<close> and
  \<open>(1.5, 1)\<close>, where it succeeds.
\<close>

theorem RRTStarBase_init_fails_iff_witness:
  "RRTStarBase_init 1 1 1 (3/2) None = Inl (AssertionError 1 (3/2)) \<and>
   (\<exists>s. RRTStarBase_init 1 1 1 1 None = Inr s \<and> near_threshold s = 1 \<and> max_distance s = 1) \<and>
   (\<exists>s. RRTStarBase_init 1 1 (3/2) 1 None = Inr s \<and> near_threshold s = 3/2 \<and> max_distance s = 1)"
proof -
  have a: "RRTStarBase_init 1 1 1 (3/2) None = Inl (AssertionError 1 (3/2))"
    using RRTStarBase_init_fails_iff [of 1 1 1 "3/2" None] by simp
  have b: "\<exists>s. RRTStarBase_init 1 1 1 1 None = Inr s \<and> near_threshold s = 1 \<and> max_distance s = 1"
    using RRTStarBase_init_fails_iff [of 1 1 1 1 None] by simp
  have c: "\<exists>s. RRTStarBase_init 1 1 (3/2) 1 None = Inr s \<and> near_threshold s = 3/2 \<and> max_distance s = 1"
    using RRTStarBase_init_fails_iff [of 1 1 "3/2" 1 None] by simp
  from a b c show ?thesis by blast
qed

section \<open>Claim C5: the expanding ring search returns\<close>














section \<open>Claim C6: the result of the potential field sampler\<close>

lemma ext_min_from_in: "ext_min_from m xs \<in> set (m # xs)"
  by (induction xs arbitrary: m) auto

lemma ext_less_trans: "ext_less a b \<Longrightarrow> ext_less b c \<Longrightarrow> ext_less a c"
  by (cases a; cases b; cases c) auto

lemma ext_less_irrefl: "\<not> ext_less a a"
  by (cases a) auto

lemma ext_not_less_trans:
  "\<not> ext_less b a \<Longrightarrow> \<not> ext_less c b \<Longrightarrow> \<not> ext_less c a"
  by (cases a; cases b; cases c) auto

lemma ext_min_from_le_first: "\<not> ext_less m (ext_min_from m xs)"
proof (induction xs arbitrary: m)
  case Nil
  show ?case by (simp add: ext_less_irrefl)
next
  case (Cons x xs)
  let ?m = "if ext_less x m then x else m"
  have a: "\<not> ext_less ?m (ext_min_from ?m xs)" by (rule Cons.IH)
  have b: "\<not> ext_less m ?m" by (cases x; cases m) auto
  from ext_not_less_trans [OF a b] show ?case by simp
qed

lemma ext_min_from_le_rest: "x \<in> set xs \<Longrightarrow> \<not> ext_less x (ext_min_from m xs)"
proof (induction xs arbitrary: m)
  case Nil
  then show ?case by simp
next
  case (Cons y ys)
  let ?m = "if ext_less y m then y else m"
  show ?case
  proof (cases "x = y")
    case True
    have a: "\<not> ext_less ?m (ext_min_from ?m ys)" by (rule ext_min_from_le_first)
    have b: "\<not> ext_less y ?m" by (cases y; cases m) auto
    from ext_not_less_trans [OF a b] True show ?thesis by simp
  next
    case False
    with Cons.prems have "x \<in> set ys" by simp
    from Cons.IH [OF this] show ?thesis by simp
  qed
qed

lemma ext_min_from_least: "x \<in> set (m # xs) \<Longrightarrow> \<not> ext_less x (ext_min_from m xs)"
  using ext_min_from_le_first [of m xs] ext_min_from_le_rest [of x xs m] by auto

lemma find_first:
  assumes "find P xs = Some y"
  shows "y \<in> set xs \<and> P y \<and> (\<forall>x\<in>set (takeWhile (\<lambda>x. x \<noteq> y) xs). \<not> P x)"
  using assms
proof (induction xs)
  case Nil
  then show ?case by simp
next
  case (Cons x xs)
  then show ?case by (cases "P x") auto
qed

lemma find_exists: "y \<in> set xs \<Longrightarrow> P y \<Longrightarrow> \<exists>z. find P xs = Some z"
  by (induction xs) auto

text \<open>
  Where the sampler gets past the picture block, it does what C6 says: a cell beyond
  \<open>max_distance\<close> from the centre has potential infinity; when every cell has, the
  centre is returned; otherwise the position of the first cell, in row-major order,
  whose potential is the least.
\<close>

lemma masked_cell:
  "max_distance s < dist_to_center s center r c \<Longrightarrow>
   total_potential s edt local_map center goal_pos (r, c) = PInf"
  by (simp add: total_potential_def Let_def)

lemma sample_point_result:
  assumes pic: "field_picture s = Inr ()"
  shows "(list_all (\<lambda>rc. total_potential s edt local_map center goal_pos rc = PInf)
            (window_cells local_map) \<longrightarrow>
          sample_point_by_local_map s edt local_map center goal_pos = Inr center) \<and>
         (\<not> list_all (\<lambda>rc. total_potential s edt local_map center goal_pos rc = PInf)
            (window_cells local_map) \<longrightarrow>
          (\<exists>r c. sample_point_by_local_map s edt local_map center goal_pos =
                   Inr (x_coord s center c, y_coord s center r) \<and>
                 (r, c) \<in> set (window_cells local_map) \<and>
                 (\<forall>rc\<in>set (window_cells local_map).
                    \<not> ext_less (total_potential s edt local_map center goal_pos rc)
                                (total_potential s edt local_map center goal_pos (r, c))) \<and>
                 (\<forall>rc\<in>set (takeWhile (\<lambda>rc. rc \<noteq> (r, c)) (window_cells local_map)).
                    total_potential s edt local_map center goal_pos rc \<noteq>
                    total_potential s edt local_map center goal_pos (r, c))))"
proof (intro conjI impI)
  assume "list_all (\<lambda>rc. total_potential s edt local_map center goal_pos rc = PInf)
            (window_cells local_map)"
  then show "sample_point_by_local_map s edt local_map center goal_pos = Inr center"
    by (simp add: sample_point_by_local_map_def Let_def)
next
  let ?U = "total_potential s edt local_map center goal_pos"
  let ?cells = "window_cells local_map"
  assume na: "\<not> list_all (\<lambda>rc. ?U rc = PInf) ?cells"
  then have ne: "?cells \<noteq> []" by auto
  then obtain rc0 rest where cells: "?cells = rc0 # rest" by (cases ?cells) auto
  let ?m = "ext_min_from (?U rc0) (map ?U rest)"
  have "?m \<in> set (?U rc0 # map ?U rest)" by (rule ext_min_from_in)
  then have "?m \<in> ?U ` set ?cells" unfolding cells by simp
  then obtain y where y: "y \<in> set ?cells" "?U y = ?m" by (metis imageE)
  from find_exists [of y ?cells "\<lambda>rc. ?U rc = ?m", OF y] obtain z where
    z: "find (\<lambda>rc. ?U rc = ?m) ?cells = Some z" by blast
  obtain r c where rc: "z = (r, c)" by (cases z)
  from find_first [OF z] have zin: "z \<in> set ?cells" and zm: "?U z = ?m"
    and first: "\<forall>x\<in>set (takeWhile (\<lambda>x. x \<noteq> z) ?cells). ?U x \<noteq> ?m" by auto
  have least: "\<forall>x\<in>set ?cells. \<not> ext_less (?U x) (?U z)"
  proof
    fix x assume "x \<in> set ?cells"
    then have "?U x \<in> set (?U rc0 # map ?U rest)" unfolding cells by auto
    from ext_min_from_least [OF this] zm show "\<not> ext_less (?U x) (?U z)" by simp
  qed
  have res: "sample_point_by_local_map s edt local_map center goal_pos =
        Inr (x_coord s center c, y_coord s center r)"
  proof -
    have "map ?U ?cells = ?U rc0 # map ?U rest" by (simp add: cells)
    then show ?thesis
      using na z pic by (simp add: sample_point_by_local_map_def Let_def rc)
  qed
  from res zin least first zm show "\<exists>r c. sample_point_by_local_map s edt local_map center goal_pos =
                   Inr (x_coord s center c, y_coord s center r) \<and>
                 (r, c) \<in> set ?cells \<and>
                 (\<forall>rc\<in>set ?cells. \<not> ext_less (?U rc) (?U (r, c))) \<and>
                 (\<forall>rc\<in>set (takeWhile (\<lambda>rc. rc \<noteq> (r, c)) ?cells). ?U rc \<noteq> ?U (r, c))"
    unfolding rc by (intro exI [of _ r] exI [of _ c]) simp
qed


lemma total_potential_finite:
  assumes "dist_to_center s center r c \<le> max_distance s"
    and "edt \<lparr> nrows = nrows local_map, ncols = ncols local_map,
               cell_at = (\<lambda>r' c'. if cell_at local_map r' c' = 1 then 0 else 1) \<rparr> r c * cell_size s \<noteq> 0"
    and "edt \<lparr> nrows = nrows local_map, ncols = ncols local_map,
               cell_at = (\<lambda>r' c'. if cell_at local_map r' c' = 2 then 0 else 1) \<rparr> r c * cell_size s \<noteq> 0"
  shows "total_potential s edt local_map center goal_pos (r, c) \<noteq> PInf"
  using assms by (simp add: total_potential_def Let_def U_rep_def del: mult_eq_0_iff)

lemma three: "[0..<3] = [0, 1, 2]"
  by (simp add: upt_rec)

lemma corner_edt:
  "edt_nearest_zero \<lparr> nrows = nrows corner_window, ncols = ncols corner_window,
       cell_at = (\<lambda>r' c'. if cell_at corner_window r' c' = 1 then 0 else 1) \<rparr> 1 1 = sqrt 2"
  "edt_nearest_zero \<lparr> nrows = nrows corner_window, ncols = ncols corner_window,
       cell_at = (\<lambda>r' c'. if cell_at corner_window r' c' = 2 then 0 else 1) \<rparr> 1 1 = sqrt 2"
  by (simp_all add: edt_nearest_zero_def corner_window_def three)

text \<open>
  C6 says that the sampler returns the position of the least cell whenever some cell is
  finite. On a planner built without an output directory this fails on every pass whose
  iteration count is a multiple of \<open>visualize_iterations\<close>: the block that writes the
  picture of the field joins the directory, which is None, with a file name, and the
  call raises TypeError before the least cell is looked up. \<open>generate_tree\<close> guards
  its own writes with \<open>self._directory is not None\<close> (line 528); this block has no
  guard.
\<close>

theorem sampler_raises_without_directory:
  "\<exists>s0. RRTStarPNG_init half_params white_image (\<lambda>a k. a) = Inr s0 \<and>
        directory s0 = None \<and> local_map_size s0 = 3 \<and>
        sample_point_by_local_map
          (s0\<lparr>iteration_count := Some 0, visualize_iterations := Some 500\<rparr>)
          edt_nearest_zero corner_window (1, 1) (3 / 2, 3 / 2) = Inl TypeError"
proof -
  have "\<exists>s0. RRTStarPNG_init half_params white_image (\<lambda>a k. a) = Inr s0 \<and>
      directory s0 = None \<and> local_map_size s0 = 3 \<and> cell_size s0 = 1 / 2 \<and>
      max_distance s0 = 1"
    by (simp add: RRTStarPNG_init_def RRTStarBase_init_def half_params_def floordiv_def Let_def)
  then obtain s0 where s0: "RRTStarPNG_init half_params white_image (\<lambda>a k. a) = Inr s0"
    and f: "directory s0 = None" "local_map_size s0 = 3" "cell_size s0 = 1 / 2"
      "max_distance s0 = 1"
    by blast
  let ?s = "s0\<lparr>iteration_count := Some 0, visualize_iterations := Some 500\<rparr>"
  let ?U = "total_potential ?s edt_nearest_zero corner_window (1, 1) (3 / 2, 3 / 2)"
  have d: "dist_to_center ?s (1, 1) 1 1 = 0"
    by (simp add: dist_to_center_def x_coord_def y_coord_def f)
  have "?U (1, 1) \<noteq> PInf"
    by (rule total_potential_finite)
       (simp_all add: d [unfolded One_nat_def] f corner_edt [unfolded One_nat_def])
  moreover have "(1, 1) \<in> set (window_cells corner_window)"
    by (simp add: window_cells_def corner_window_def)
  ultimately have na: "\<not> list_all (\<lambda>rc. ?U rc = PInf) (window_cells corner_window)"
    unfolding list_all_iff by blast
  have pic: "field_picture ?s = Inl TypeError" by (simp add: field_picture_def f)
  have "sample_point_by_local_map ?s edt_nearest_zero corner_window (1, 1) (3 / 2, 3 / 2) =
        Inl TypeError"
    using na by (simp add: sample_point_by_local_map_def Let_def pic)
  with s0 f show ?thesis by blast
qed

section \<open>Claim C7: checkpoint round trip\<close>

lemma update_fresh: "k \<notin> fst ` set al \<Longrightarrow> AList.update k v al = al @ [(k, v)]"
  by (induction al) auto

lemma str_to_pt_empty: "str_to_pt codec [] = Inl ValueError"
  by (simp add: str_to_pt_def)

lemma cell_of_ready:
  assumes "grid_ready s"
  shows "\<exists>c. cell_of s p = Inr c"
  using assms
  by (auto simp: grid_ready_def cell_of_def minus_offset_def floordiv_def)

lemma add_to_grid_hash_ready:
  assumes "grid_ready s"
  shows "\<exists>c. add_to_grid_hash s p = Inr (s\<lparr>grid_hash := (grid_hash s)(c := grid_hash s c @ [p])\<rparr>)"
proof -
  from cell_of_ready [OF assms] obtain c where c: "cell_of s p = Inr c" by blast
  show ?thesis by (rule exI [of _ c]) (simp add: add_to_grid_hash_def c)
qed

lemma string_graph_loop_encode:
  assumes inj: "inj_on (str_key codec) N"
    and nodes: "\<forall>e\<in>set tr. fst e \<in> N \<and> (snd e = None) = (fst e = st)"
    and dist: "distinct (map fst tr)"
    and acc: "fst ` set acc \<subseteq> str_key codec ` N"
      "fst ` set acc \<inter> str_key codec ` fst ` set tr = {}"
  shows "string_graph_loop codec (Some st) acc tr = Inr (acc @ map (encode_entry codec) tr)"
  using nodes dist acc
proof (induction tr arbitrary: acc)
  case Nil
  then show ?case by simp
next
  case (Cons e tr)
  obtain k v where e: "e = (k, v)" by (cases e)
  from Cons.prems(1) e have kN: "k \<in> N" and root: "(v = None) = (k = st)" by auto
  let ?val = "case v of None \<Rightarrow> [] | Some v' \<Rightarrow> str_key codec v'"
  from Cons.prems(4) e have fresh: "str_key codec k \<notin> fst ` set acc" by auto
  let ?acc = "acc @ [(str_key codec k, ?val)]"
  have step: "string_graph_loop codec (Some st) acc (e # tr) =
        string_graph_loop codec (Some st) ?acc tr"
    unfolding e using root fresh by (cases v) (auto simp: update_fresh)
  have n': "\<forall>e\<in>set tr. fst e \<in> N \<and> (snd e = None) = (fst e = st)" using Cons.prems(1) by simp
  have d': "distinct (map fst tr)" using Cons.prems(2) by simp
  have a1: "fst ` set ?acc \<subseteq> str_key codec ` N" using Cons.prems(3) kN by auto
  have a2: "fst ` set ?acc \<inter> str_key codec ` fst ` set tr = {}"
  proof -
    have "str_key codec k \<notin> str_key codec ` fst ` set tr"
    proof
      assume "str_key codec k \<in> str_key codec ` fst ` set tr"
      then obtain k' where k': "k' \<in> fst ` set tr" "str_key codec k = str_key codec k'" by auto
      with n' have "k' \<in> N" by auto
      with inj kN k'(2) have "k = k'" by (auto dest: inj_onD)
      with k'(1) Cons.prems(2) e show False by auto
    qed
    with Cons.prems(4) show ?thesis by auto
  qed
  from Cons.IH [OF n' d' a1 a2] step show ?case by (simp add: e encode_entry_def)
qed


lemma grid_ready_cong:
  "near_threshold s' = near_threshold s \<Longrightarrow> x_min s' = x_min s \<Longrightarrow> y_min s' = y_min s \<Longrightarrow>
   grid_ready s' = grid_ready s"
  by (simp add: grid_ready_def)

lemma load_loop_decode:
  assumes codec: "\<forall>p\<in>N. str_to_pt codec (str_key codec p) = Inr p"
    and stN: "st \<in> N"
    and best: "jd_best_goal_node jdoc = Some (case B of None \<Rightarrow> [] | Some b \<Rightarrow> str_key codec b)"
    and BN: "\<forall>b. B = Some b \<longrightarrow> b \<in> N"
  shows "(\<forall>e\<in>set tr. fst e \<in> N \<and> (snd e = None) = (fst e = st) \<and>
                     (\<forall>v. snd e = Some v \<longrightarrow> v \<in> N)) \<Longrightarrow>
    distinct (map fst tr) \<Longrightarrow> fst ` set (tree s1) \<inter> fst ` set tr = {} \<Longrightarrow>
    start s1 = Some st \<Longrightarrow> grid_ready s1 \<Longrightarrow>
    \<exists>s2. load_loop codec jdoc (str_key codec st) s1 (map (encode_entry codec) tr) = Inr s2 \<and>
      tree s2 = tree s1 @ filter (\<lambda>e. fst e \<noteq> st) tr \<and> start s2 = Some st \<and>
      goal s2 = goal s1 \<and>
      best_goal_node s2 =
        (if \<exists>b. B = Some b \<and> b \<in> fst ` set tr then B else best_goal_node s1) \<and>
      start_iteration s2 = start_iteration s1"
proof (induction tr arbitrary: s1)
  case Nil
  then show ?case by simp
next
  case (Cons e tr)
  obtain k v where e: "e = (k, v)" by (cases e)
  let ?K = "str_key codec"
  have inj: "\<And>p q. p \<in> N \<Longrightarrow> q \<in> N \<Longrightarrow> ?K p = ?K q \<Longrightarrow> p = q"
    using codec by (metis sum.inject(2))
  have nonempty: "\<And>p. p \<in> N \<Longrightarrow> ?K p \<noteq> []"
    using codec str_to_pt_empty [of codec] by (metis sum.distinct(1))
  from Cons.prems(1) e have kN: "k \<in> N" and root: "(v = None) = (k = st)"
    and vN: "\<And>v'. v = Some v' \<Longrightarrow> v' \<in> N" by auto
  have pk: "str_to_pt codec (?K k) = Inr k" using codec kN by blast
  let ?bk = "case B of None \<Rightarrow> [] | Some b \<Rightarrow> ?K b"
  have match: "(?K k = ?bk) = (B = Some k)"
  proof (cases B)
    case None
    with nonempty [OF kN] show ?thesis by simp
  next
    case (Some b)
    with BN have "b \<in> N" by blast
    with inj [OF kN this] Some show ?thesis by auto
  qed
  let ?s1' = "if B = Some k then s1\<lparr>best_goal_node := Some k\<rparr> else s1"
  have n': "\<forall>e\<in>set tr. fst e \<in> N \<and> (snd e = None) = (fst e = st) \<and>
                     (\<forall>v. snd e = Some v \<longrightarrow> v \<in> N)" using Cons.prems(1) by simp
  have d': "distinct (map fst tr)" using Cons.prems(2) by simp
  have knot: "k \<notin> fst ` set tr" using Cons.prems(2) e by auto
  have kfresh: "k \<notin> fst ` set (tree s1)" using Cons.prems(3) e by auto
  have bestk: "(\<exists>b. B = Some b \<and> b \<in> fst ` set (e # tr)) =
               (B = Some k \<or> (\<exists>b. B = Some b \<and> b \<in> fst ` set tr))"
    unfolding e by auto
  show ?case
  proof (cases v)
    case None
    with root have kst: "k = st" by simp
    have step: "load_loop codec jdoc (?K st) s1 (map (encode_entry codec) (e # tr)) =
          load_loop codec jdoc (?K st) ?s1' (map (encode_entry codec) tr)"
      unfolding e using None pk match
      by (simp add: encode_entry_def best field_of_def Let_def)
    have f': "fst ` set (tree ?s1') \<inter> fst ` set tr = {}" using Cons.prems(3) by auto
    have st': "start ?s1' = Some st" using Cons.prems(4) by simp
    have r': "grid_ready ?s1'" using Cons.prems(5) by (simp add: grid_ready_def)
    from Cons.IH [OF n' d' f' st' r'] obtain s2 where
      s2: "load_loop codec jdoc (?K st) ?s1' (map (encode_entry codec) tr) = Inr s2"
        "tree s2 = tree ?s1' @ filter (\<lambda>e. fst e \<noteq> st) tr" "start s2 = Some st"
        "goal s2 = goal ?s1'"
        "best_goal_node s2 =
          (if \<exists>b. B = Some b \<and> b \<in> fst ` set tr then B else best_goal_node ?s1')"
        "start_iteration s2 = start_iteration ?s1'" by blast
    have "tree s2 = tree s1 @ filter (\<lambda>e. fst e \<noteq> st) (e # tr)"
      using s2(2) kst e by simp
    moreover have "best_goal_node s2 =
        (if \<exists>b. B = Some b \<and> b \<in> fst ` set (e # tr) then B else best_goal_node s1)"
      unfolding bestk using s2(5) by auto
    moreover have "goal s2 = goal s1" "start_iteration s2 = start_iteration s1"
      using s2(4,6) by simp_all
    ultimately show ?thesis using step s2(1,3) by simp
  next
    case (Some v')
    with root have kst: "k \<noteq> st" by simp
    from vN [OF Some] have v'N: "v' \<in> N" .
    have pv: "str_to_pt codec (?K v') = Inr v'" using codec v'N by blast
    have vne: "?K v' \<noteq> []" by (rule nonempty [OF v'N])
    let ?s1'' = "?s1'\<lparr>tree := tree s1 @ [(k, Some v')]\<rparr>"
    have r'': "grid_ready ?s1''" using Cons.prems(5) by (simp add: grid_ready_def)
    from add_to_grid_hash_ready [OF r'', of k] obtain c where
      add: "add_to_grid_hash ?s1'' k =
            Inr (?s1''\<lparr>grid_hash := (grid_hash ?s1'')(c := grid_hash ?s1'' c @ [k])\<rparr>)"
      by blast
    let ?s1g = "?s1''\<lparr>grid_hash := (grid_hash ?s1'')(c := grid_hash ?s1'' c @ [k])\<rparr>"
    have upd: "AList.update k (Some v') (tree ?s1') = tree s1 @ [(k, Some v')]"
      using kfresh by (simp add: update_fresh)
    have vst: "(?K v' = ?K st) = (v' = st)" using inj [OF v'N stN] by auto
    have st1': "start ?s1' = Some st" using Cons.prems(4) by simp
    have enc: "map (encode_entry codec) (e # tr) = (?K k, ?K v') # map (encode_entry codec) tr"
      by (simp add: e Some encode_entry_def)
    have one: "load_loop codec jdoc (?K st) s1 ((?K k, ?K v') # rest) =
          and_then (add_to_grid_hash ?s1'' k) (\<lambda>s2. load_loop codec jdoc (?K st) s2 rest)"
      for rest
    proof (cases "v' = st")
      case True
      have "?s1'\<lparr>tree := AList.update k (start ?s1') (tree ?s1')\<rparr> = ?s1''"
        unfolding st1' using True upd by simp
      then show ?thesis
        using pk match vne True by (simp add: best field_of_def Let_def)
    next
      case False
      have "?s1'\<lparr>tree := AList.update k (Some v') (tree ?s1')\<rparr> = ?s1''"
        using upd by simp
      then show ?thesis
        using pk match vne False vst pv by (simp add: best field_of_def Let_def)
    qed
    have step: "load_loop codec jdoc (?K st) s1 (map (encode_entry codec) (e # tr)) =
          load_loop codec jdoc (?K st) ?s1g (map (encode_entry codec) tr)"
      unfolding enc one add by simp
    have f': "fst ` set (tree ?s1g) \<inter> fst ` set tr = {}"
      using Cons.prems(3) knot by auto
    have st': "start ?s1g = Some st" using Cons.prems(4) by simp
    have r': "grid_ready ?s1g" using Cons.prems(5) by (simp add: grid_ready_def)
    from Cons.IH [OF n' d' f' st' r'] obtain s2 where
      s2: "load_loop codec jdoc (?K st) ?s1g (map (encode_entry codec) tr) = Inr s2"
        "tree s2 = tree ?s1g @ filter (\<lambda>e. fst e \<noteq> st) tr" "start s2 = Some st"
        "goal s2 = goal ?s1g"
        "best_goal_node s2 =
          (if \<exists>b. B = Some b \<and> b \<in> fst ` set tr then B else best_goal_node ?s1g)"
        "start_iteration s2 = start_iteration ?s1g" by blast
    have "tree s2 = tree s1 @ filter (\<lambda>e. fst e \<noteq> st) (e # tr)"
      using s2(2) kst e Some by simp
    moreover have "best_goal_node s2 =
        (if \<exists>b. B = Some b \<and> b \<in> fst ` set (e # tr) then B else best_goal_node s1)"
      unfolding bestk using s2(5) by auto
    moreover have "goal s2 = goal s1" "start_iteration s2 = start_iteration s1"
      using s2(4,6) by simp_all
    ultimately show ?thesis using step s2(1,3) by simp
  qed
qed


lemma string_tree_fields:
  assumes w: "string_tree cm codec s = Some (Inr (doc, sa))"
    and st: "start s = Some st" and g: "goal s = Some g"
  shows "string_graph_loop codec (Some st) [] (tree s) = Inr (doc_graph doc) \<and>
         doc_start doc = str_key codec st \<and> doc_goal doc = str_key codec g \<and>
         doc_best_goal_node doc =
           (case best_goal_node s of None \<Rightarrow> [] | Some b \<Rightarrow> str_key codec b)"
  using w
  by (auto simp: string_tree_def key_of_def st g try_then_def
      split: sum.splits option.splits prod.splits)

lemma small_keys:
  "str_key small_codec start_pose = ''2.0_1.0_0.0_0.0''"
  "str_key small_codec goal_pose = ''3.0_3.0_0.0_0.0''"
  "str_key small_codec (pose_at 1 1) = ''1.0_1.0_0.0_0.0''"
  by (simp_all add: small_codec_def show_small_def start_pose_def goal_pose_def pose_at_def)

lemma small_parse:
  "str_to_pt small_codec ''2.0_1.0_0.0_0.0'' = Inr start_pose"
  "str_to_pt small_codec ''3.0_3.0_0.0_0.0'' = Inr goal_pose"
  "str_to_pt small_codec ''1.0_1.0_0.0_0.0'' = Inr (pose_at 1 1)"
  by (simp_all add: str_to_pt_def small_codec_def read_small_def start_pose_def goal_pose_def
      pose_at_def)

lemma two_node_written:
  "string_tree cm small_codec two_node_planner = Some (Inr (two_node_doc, two_node_planner))"
proof -
  have ne: "pose_at 1 1 \<noteq> start_pose" by (simp add: start_pose_def pose_at_def)
  show ?thesis
    using ne
    by (simp add: string_tree_def two_node_planner_def key_of_def small_keys get_best_path_def
        two_node_doc_def unit_planner_def png_offsets_def)
qed


lemma load_written_tree:
  assumes st: "start s = Some st" and g: "goal s = Some g"
    and dist: "distinct (map fst (tree s))"
    and root: "\<forall>e\<in>set (tree s). (snd e = None) = (fst e = st)"
    and best: "\<forall>b. best_goal_node s = Some b \<longrightarrow> b \<in> fst ` set (tree s)"
    and codec: "\<forall>p\<in>insert st (insert g (fst ` set (tree s) \<union> {v. \<exists>k. (k, Some v) \<in> set (tree s)})).
                  str_to_pt codec (str_key codec p) = Inr p"
    and w: "string_tree cm codec s = Some (Inr (doc, sa))"
    and fresh: "tree f = []" "start f = None" "goal f = None" "best_goal_node f = None"
    and ready: "grid_ready f"
  shows "\<exists>s'. load_tree_from_json codec f
                (Some \<lparr>ck_prefix = Some n, ck_parsed = Inr (written doc)\<rparr>) existing_jsons = Inr s' \<and>
           start s' = start s \<and> goal s' = goal s \<and> best_goal_node s' = best_goal_node s \<and>
           tree s' = filter (\<lambda>e. fst e \<noteq> st) (tree s) \<and> start_iteration s' = n + 1"
proof -
  let ?N = "insert st (insert g (fst ` set (tree s) \<union> {v. \<exists>k. (k, Some v) \<in> set (tree s)}))"
  let ?K = "str_key codec"
  let ?B = "best_goal_node s"
  have inj: "inj_on ?K ?N"
  proof (rule inj_onI)
    fix p q assume "p \<in> ?N" "q \<in> ?N" "?K p = ?K q"
    with codec have "Inr p = (Inr q :: error + pose)" by metis
    then show "p = q" by simp
  qed
  from string_tree_fields [OF w st g] have
    gl: "string_graph_loop codec (Some st) [] (tree s) = Inr (doc_graph doc)"
    and ds: "doc_start doc = ?K st" and dg: "doc_goal doc = ?K g"
    and db: "doc_best_goal_node doc = (case ?B of None \<Rightarrow> [] | Some b \<Rightarrow> ?K b)"
    by simp_all
  have nodes: "\<forall>e\<in>set (tree s). fst e \<in> ?N \<and> (snd e = None) = (fst e = st)"
    using root by auto
  have "string_graph_loop codec (Some st) [] (tree s) = Inr ([] @ map (encode_entry codec) (tree s))"
    by (rule string_graph_loop_encode [OF inj nodes dist]) simp_all
  with gl have graph: "doc_graph doc = map (encode_entry codec) (tree s)" by simp
  let ?f2 = "f\<lparr>start := Some st, goal := Some g\<rparr>"
  let ?jdoc = "written doc"
  have nodes': "\<forall>e\<in>set (tree s). fst e \<in> ?N \<and> (snd e = None) = (fst e = st) \<and>
                     (\<forall>v. snd e = Some v \<longrightarrow> v \<in> ?N)"
  proof
    fix e assume e: "e \<in> set (tree s)"
    obtain k v where kv: "e = (k, v)" by (cases e)
    have "\<forall>v'. snd e = Some v' \<longrightarrow> v' \<in> ?N"
    proof (intro allI impI)
      fix v' assume "snd e = Some v'"
      with e kv have "(k, Some v') \<in> set (tree s)" by simp
      then show "v' \<in> ?N" by blast
    qed
    with nodes e show "fst e \<in> ?N \<and> (snd e = None) = (fst e = st) \<and>
                     (\<forall>v. snd e = Some v \<longrightarrow> v \<in> ?N)" by blast
  qed
  have jb: "jd_best_goal_node ?jdoc = Some (case ?B of None \<Rightarrow> [] | Some b \<Rightarrow> ?K b)"
    by (simp add: written_def db)
  have BN: "\<forall>b. ?B = Some b \<longrightarrow> b \<in> ?N" using best by blast
  have stN: "st \<in> ?N" by simp
  have fr: "fst ` set (tree ?f2) \<inter> fst ` set (tree s) = {}" by (simp add: fresh)
  have st2: "start ?f2 = Some st" by simp
  have r2: "grid_ready ?f2" using ready by (simp add: grid_ready_def)
  from load_loop_decode [OF codec stN jb BN nodes' dist fr st2 r2] obtain s2 where
    s2: "load_loop codec ?jdoc (?K st) ?f2 (map (encode_entry codec) (tree s)) = Inr s2"
      "tree s2 = tree ?f2 @ filter (\<lambda>e. fst e \<noteq> st) (tree s)" "start s2 = Some st"
      "goal s2 = goal ?f2"
      "best_goal_node s2 =
        (if \<exists>b. ?B = Some b \<and> b \<in> fst ` set (tree s) then ?B else best_goal_node ?f2)"
      "start_iteration s2 = start_iteration ?f2" by blast
  have ps: "str_to_pt codec (?K st) = Inr st" and pg: "str_to_pt codec (?K g) = Inr g"
    using codec by simp_all
  have wd: "written doc =
      \<lparr> jd_start = Some (?K st), jd_goal = Some (?K g),
        jd_best_goal_node = Some (doc_best_goal_node doc),
        jd_graph = Some (map (encode_entry codec) (tree s)) \<rparr>"
    by (simp add: written_def ds dg graph)
  have "load_tree_from_json codec f
          (Some \<lparr>ck_prefix = Some n, ck_parsed = Inr ?jdoc\<rparr>) existing_jsons =
        Inr (s2\<lparr>start_iteration := n + 1\<rparr>)"
    unfolding wd
    by (simp add: load_tree_from_json_def load_checkpoint_def field_of_def
        fresh ps pg s2(1) [unfolded wd])
  moreover have "best_goal_node s2 = ?B"
    using s2(5) best fresh(4) by (cases ?B) auto
  ultimately show ?thesis using s2(2,3,4) st g fresh(1) by simp
qed


text \<open>
  C7 as written says that the reloaded planner has exactly the same child to parent
  graph. For the planner with the two entries \<open>start \<mapsto> None\<close> and \<open>node \<mapsto> start\<close>, the
  loader run on the written document in a fresh planner builds a tree with the single
  entry \<open>node \<mapsto> start\<close>: the entry of the root is skipped (line 214) and the start is
  no key of the reloaded tree.
\<close>

theorem checkpoint_roundtrip_counterexample:
  "string_tree (shortest_open_field 1) small_codec two_node_planner =
     Some (Inr (two_node_doc, two_node_planner)) \<and>
   load_tree_from_json small_codec unit_planner
     (Some \<lparr>ck_prefix = Some 10, ck_parsed = Inr (written two_node_doc)\<rparr>) [] =
     Inr reloaded_planner \<and>
   tree two_node_planner = [(start_pose, None), (pose_at 1 1, Some start_pose)] \<and>
   tree reloaded_planner = [(pose_at 1 1, Some start_pose)]"
proof -
  have l: "load_tree_from_json small_codec unit_planner
     (Some \<lparr>ck_prefix = Some 10, ck_parsed = Inr (written two_node_doc)\<rparr>) [] =
     Inr reloaded_planner"
    apply (simp add: load_tree_from_json_def load_checkpoint_def written_def two_node_doc_def
        field_of_def small_parse)
    apply (simp add: unit_planner_def png_offsets_def small_parse field_of_def
        add_to_grid_hash_def cell_of_def minus_offset_def floordiv_def pose_at_def
        reloaded_planner_def start_pose_def goal_pose_def)
    done
  show ?thesis
    using l two_node_written [of "shortest_open_field 1"]
    by (simp add: two_node_planner_def reloaded_planner_def)
qed

text \<open>
  C7 (amended): let the tree have the start as its only entry with value None, let
  \<open>best_goal_node\<close> be unset or a key of the tree, and let \<open>_str_to_pt\<close> give back every
  pose of the planner from its key. When \<open>_string_tree\<close> returns a document, loading it
  into a fresh planner restores the start, the goal and \<open>best_goal_node\<close>, and the tree
  it builds holds the entries of the written tree in their order except the entry of
  the root; the iteration counter is the number of the file name plus one.
\<close>

theorem checkpoint_roundtrip:
  assumes "start s = Some st" and "goal s = Some g"
    and "distinct (map fst (tree s))"
    and "\<forall>e\<in>set (tree s). (snd e = None) = (fst e = st)"
    and "\<forall>b. best_goal_node s = Some b \<longrightarrow> b \<in> fst ` set (tree s)"
    and "\<forall>p\<in>insert st (insert g (fst ` set (tree s) \<union> {v. \<exists>k. (k, Some v) \<in> set (tree s)})).
            str_to_pt codec (str_key codec p) = Inr p"
    and "string_tree cm codec s = Some (Inr (doc, sa))"
    and "tree f = []" "start f = None" "goal f = None" "best_goal_node f = None"
    and "grid_ready f"
  shows "\<exists>s'. load_tree_from_json codec f
                (Some \<lparr>ck_prefix = Some n, ck_parsed = Inr (written doc)\<rparr>) existing_jsons = Inr s' \<and>
           start s' = start s \<and> goal s' = goal s \<and> best_goal_node s' = best_goal_node s \<and>
           tree s' = filter (\<lambda>e. fst e \<noteq> st) (tree s) \<and> start_iteration s' = n + 1"
  using assms by (rule load_written_tree)

text \<open>The amended C7 on the planner with two entries, read from the file numbered 10.\<close>

theorem checkpoint_roundtrip_witness:
  "\<exists>s'. load_tree_from_json small_codec unit_planner
          (Some \<lparr>ck_prefix = Some 10, ck_parsed = Inr (written two_node_doc)\<rparr>) [] = Inr s' \<and>
        start s' = Some start_pose \<and> goal s' = Some goal_pose \<and> best_goal_node s' = None \<and>
        tree s' = [(pose_at 1 1, Some start_pose)] \<and> start_iteration s' = 11"
proof -
  have ne: "pose_at 1 1 \<noteq> start_pose" by (simp add: start_pose_def pose_at_def)
  have tr: "tree two_node_planner = [(start_pose, None), (pose_at 1 1, Some start_pose)]"
    by (simp add: two_node_planner_def)
  have a: "start two_node_planner = Some start_pose" "goal two_node_planner = Some goal_pose"
    "best_goal_node two_node_planner = None"
    by (simp_all add: two_node_planner_def unit_planner_def png_offsets_def)
  have d: "distinct (map fst (tree two_node_planner))" using ne by (simp add: tr)
  have r: "\<forall>e\<in>set (tree two_node_planner). (snd e = None) = (fst e = start_pose)"
    using ne by (simp add: tr)
  have b: "\<forall>b. best_goal_node two_node_planner = Some b \<longrightarrow> b \<in> fst ` set (tree two_node_planner)"
    by (simp add: a)
  have c: "\<forall>p\<in>insert start_pose (insert goal_pose (fst ` set (tree two_node_planner) \<union>
              {v. \<exists>k. (k, Some v) \<in> set (tree two_node_planner)})).
            str_to_pt small_codec (str_key small_codec p) = Inr p"
    by (auto simp: tr small_keys small_parse)
  have f: "tree unit_planner = []" "start unit_planner = None" "goal unit_planner = None"
    "best_goal_node unit_planner = None" "grid_ready unit_planner"
    by (simp_all add: unit_planner_def png_offsets_def grid_ready_def)
  from checkpoint_roundtrip [where n = 10 and existing_jsons = "[]",
      OF a(1,2) d r b c two_node_written [of "shortest_open_field 1"] f]
  show ?thesis using ne by (simp add: a tr)
qed

section \<open>Claim C8: a checkpoint that cannot be parsed\<close>

lemma and_then_Inl_iff:
  "(\<exists>e. and_then r f = Inl e) = ((\<exists>e. r = Inl e) \<or> (\<exists>v. r = Inr v \<and> (\<exists>e. f v = Inl e)))"
  by (cases r) simp_all

lemma load_loop_no_best:
  assumes "jd_best_goal_node doc = None" "graph \<noteq> []"
  shows "\<exists>e. load_loop codec doc start_str s graph = Inl e"
proof -
  from assms(2) obtain k v rest where g: "graph = (k, v) # rest" by (cases graph) auto
  show ?thesis
    unfolding g using assms(1)
    by (cases "str_to_pt codec k") (simp_all add: field_of_def)
qed

lemma load_checkpoint_incomplete:
  assumes p: "ck_parsed ck = Inr doc" and inc: "\<not> doc_complete doc"
  shows "\<exists>e. load_checkpoint codec s ck = Inl e"
proof (cases "jd_start doc")
  case None
  then show ?thesis by (simp add: load_checkpoint_def p field_of_def)
next
  case (Some start_str)
  note st = this
  let ?r1 = "(if start s = None
               then and_then (str_to_pt codec start_str) (\<lambda>p. Inr (s\<lparr>start := Some p\<rparr>))
               else Inr s)"
  show ?thesis
  proof (cases ?r1)
    case (Inl e)
    then show ?thesis by (simp add: load_checkpoint_def p field_of_def st)
  next
    case (Inr s1)
    note r1 = this
    show ?thesis
    proof (cases "jd_goal doc")
      case None
      then show ?thesis by (simp add: load_checkpoint_def p field_of_def st r1)
    next
      case (Some goal_str)
      note gl = this
      let ?r2 = "(if goal s1 = None
               then and_then (str_to_pt codec goal_str) (\<lambda>p. Inr (s1\<lparr>goal := Some p\<rparr>))
               else Inr s1)"
      show ?thesis
      proof (cases ?r2)
        case (Inl e)
        then show ?thesis by (simp add: load_checkpoint_def p field_of_def st r1 gl)
      next
        case (Inr s2)
        note r2 = this
        show ?thesis
        proof (cases "jd_graph doc")
          case None
          then show ?thesis by (simp add: load_checkpoint_def p field_of_def st r1 gl r2)
        next
          case (Some graph)
          with inc st gl have "graph \<noteq> []" "jd_best_goal_node doc = None"
            by (auto simp: doc_complete_def)
          from load_loop_no_best [OF this(2,1), of codec start_str s2] obtain e where
            "load_loop codec doc start_str s2 graph = Inl e" by blast
          then show ?thesis by (simp add: load_checkpoint_def p field_of_def st r1 gl r2 Some)
        qed
      qed
    qed
  qed
qed

text \<open>
  C8 as written says that a checkpoint that cannot be parsed makes the planner start
  from scratch. \<open>_load_tree_from_json\<close> has no exception handler: for a file that is no
  JSON the error of \<open>json.load\<close> is what the call returns.
\<close>

theorem load_tree_from_json_counterexample:
  "load_tree_from_json small_codec unit_planner
     (Some \<lparr>ck_prefix = Some 10, ck_parsed = Inl JSONDecodeError\<rparr>) [] = Inl JSONDecodeError"
  by (simp add: load_tree_from_json_def load_checkpoint_def)

text \<open>
  C8 (amended): the file \<open>_load_tree_from_json\<close> selects is the one \<open>json_path\<close> names or,
  when \<open>json_path\<close> is None and the planner has a directory, the latest file of the json
  directory. When that file is no JSON, the call returns the error of the parser to its
  caller; when the parsed document lacks a key the loader reads, the call returns an
  error as well. When \<open>json_path\<close> is None, the planner has a directory and the json
  directory holds no file, the call returns the planner as it was.
\<close>

theorem load_tree_from_json_failure:
  "(ck_parsed ck = Inl e \<longrightarrow>
      load_tree_from_json codec s (Some ck) existing_jsons = Inl e \<and>
      (directory s \<noteq> None \<and> latest_json existing_jsons = Inr ck \<longrightarrow>
         load_tree_from_json codec s None existing_jsons = Inl e)) \<and>
   (\<forall>doc. ck_parsed ck = Inr doc \<and> \<not> doc_complete doc \<longrightarrow>
      (\<exists>e'. load_tree_from_json codec s (Some ck) existing_jsons = Inl e') \<and>
      (directory s \<noteq> None \<and> latest_json existing_jsons = Inr ck \<longrightarrow>
         (\<exists>e'. load_tree_from_json codec s None existing_jsons = Inl e'))) \<and>
   (directory s \<noteq> None \<longrightarrow> load_tree_from_json codec s None [] = Inr s)"
proof -
  have chosen: "load_tree_from_json codec s None existing_jsons = load_checkpoint codec s ck"
    if "directory s \<noteq> None \<and> latest_json existing_jsons = Inr ck"
  proof -
    from that have "existing_jsons \<noteq> []" by (auto simp: latest_json_def)
    with that show ?thesis by (auto simp: load_tree_from_json_def)
  qed
  have named: "load_tree_from_json codec s (Some ck) existing_jsons = load_checkpoint codec s ck"
    by (simp add: load_tree_from_json_def)
  have bad: "load_checkpoint codec s ck = Inl e" if "ck_parsed ck = Inl e"
    using that by (simp add: load_checkpoint_def)
  have part: "\<exists>e'. load_checkpoint codec s ck = Inl e'"
    if "ck_parsed ck = Inr doc \<and> \<not> doc_complete doc" for doc
    using that load_checkpoint_incomplete [of ck doc codec s] by simp
  have empty: "load_tree_from_json codec s None [] = Inr s" if "directory s \<noteq> None"
    using that by (auto simp: load_tree_from_json_def)
  show ?thesis
  proof (intro conjI impI allI)
    assume "ck_parsed ck = Inl e"
    then show "load_tree_from_json codec s (Some ck) existing_jsons = Inl e"
      unfolding named by (rule bad)
  next
    assume p: "ck_parsed ck = Inl e"
      and d: "directory s \<noteq> None \<and> latest_json existing_jsons = Inr ck"
    show "load_tree_from_json codec s None existing_jsons = Inl e"
      unfolding chosen [OF d] using p by (rule bad)
  next
    fix doc
    assume "ck_parsed ck = Inr doc \<and> \<not> doc_complete doc"
    then show "\<exists>e'. load_tree_from_json codec s (Some ck) existing_jsons = Inl e'"
      unfolding named by (rule part)
  next
    fix doc
    assume p: "ck_parsed ck = Inr doc \<and> \<not> doc_complete doc"
      and d: "directory s \<noteq> None \<and> latest_json existing_jsons = Inr ck"
    show "\<exists>e'. load_tree_from_json codec s None existing_jsons = Inl e'"
      unfolding chosen [OF d] using p by (rule part)
  next
    assume "directory s \<noteq> None"
    then show "load_tree_from_json codec s None [] = Inr s" by (rule empty)
  qed
qed

text \<open>
  The amended C8 on a planner with an output directory: a file that is no JSON, named
  or found in the directory; a document without the key \<open>goal\<close>, named or found in the
  directory; and an empty directory, where the planner is returned as it was, at
  iteration 0.
\<close>

theorem load_tree_from_json_failure_witness:
  "load_tree_from_json small_codec (unit_planner\<lparr>directory := Some ''out''\<rparr>)
     (Some \<lparr>ck_prefix = Some 10, ck_parsed = Inl JSONDecodeError\<rparr>) [] = Inl JSONDecodeError \<and>
   load_tree_from_json small_codec (unit_planner\<lparr>directory := Some ''out''\<rparr>) None
     [\<lparr>ck_prefix = Some 10, ck_parsed = Inl JSONDecodeError\<rparr>] = Inl JSONDecodeError \<and>
   (\<exists>e'. load_tree_from_json small_codec (unit_planner\<lparr>directory := Some ''out''\<rparr>)
     (Some \<lparr>ck_prefix = Some 10,
            ck_parsed = Inr \<lparr>jd_start = Some ''0.0_0.0_0.0_0.0'', jd_goal = None,
                             jd_best_goal_node = None, jd_graph = Some []\<rparr>\<rparr>) [] = Inl e') \<and>
   (\<exists>e'. load_tree_from_json small_codec (unit_planner\<lparr>directory := Some ''out''\<rparr>) None
     [\<lparr>ck_prefix = Some 10,
       ck_parsed = Inr \<lparr>jd_start = Some ''0.0_0.0_0.0_0.0'', jd_goal = None,
                        jd_best_goal_node = None, jd_graph = Some []\<rparr>\<rparr>] = Inl e') \<and>
   load_tree_from_json small_codec (unit_planner\<lparr>directory := Some ''out''\<rparr>) None [] =
     Inr (unit_planner\<lparr>directory := Some ''out''\<rparr>) \<and>
   start_iteration (unit_planner\<lparr>directory := Some ''out''\<rparr>) = 0"
proof -
  let ?s = "unit_planner\<lparr>directory := Some ''out''\<rparr>"
  let ?bad = "\<lparr>ck_prefix = Some 10, ck_parsed = Inl JSONDecodeError\<rparr>"
  let ?doc = "\<lparr>jd_start = Some ''0.0_0.0_0.0_0.0'', jd_goal = None,
                jd_best_goal_node = None, jd_graph = Some []\<rparr>"
  let ?part = "\<lparr>ck_prefix = Some 10, ck_parsed = Inr ?doc\<rparr>"
  have d: "directory ?s \<noteq> None" by simp
  have l: "latest_json [?bad] = Inr ?bad" by (simp add: latest_json_def)
  have l': "latest_json [?part] = Inr ?part" by (simp add: latest_json_def)
  have i: "\<not> doc_complete ?doc" by (simp add: doc_complete_def)
  have a: "load_tree_from_json small_codec ?s (Some ?bad) [] = Inl JSONDecodeError"
    using load_tree_from_json_failure [of ?bad JSONDecodeError small_codec ?s "[]"] by simp
  have b: "load_tree_from_json small_codec ?s None [?bad] = Inl JSONDecodeError"
    using load_tree_from_json_failure [of ?bad JSONDecodeError small_codec ?s "[?bad]"] d l
    by simp
  have c: "\<exists>e'. load_tree_from_json small_codec ?s (Some ?part) [] = Inl e'"
    using load_tree_from_json_failure [of ?part JSONDecodeError small_codec ?s "[]"] i
    by simp
  have c': "\<exists>e'. load_tree_from_json small_codec ?s None [?part] = Inl e'"
    using load_tree_from_json_failure [of ?part JSONDecodeError small_codec ?s "[?part]"] i d l'
    by simp
  have e: "load_tree_from_json small_codec ?s None [] = Inr ?s"
    using load_tree_from_json_failure [of ?bad JSONDecodeError small_codec ?s "[]"] d by simp
  have z: "start_iteration ?s = 0" by (simp add: unit_planner_def png_offsets_def)
  from a b c c' e z show ?thesis by blast
qed

section \<open>Claim C9: heading wrapping\<close>

text \<open>
  C9 as written says that for every real \<open>h\<close> the result lies in the half-open interval
  from \<open>- pi\<close> (excluded) to \<open>pi\<close> (included). It fails at \<open>h = 4 * pi\<close>, where the single
  subtraction leaves \<open>2 * pi\<close>, and at \<open>h = - pi\<close>, which is returned as it is.
\<close>

theorem validate_heading_counterexample:
  "\<not> (validate_heading (4 * pi) \<le> pi) \<and> \<not> (- pi < validate_heading (- pi))"
proof -
  have "pi > 0" by (rule pi_gt_zero)
  then show ?thesis by (simp add: validate_heading_def)
qed

text \<open>
  C9 (amended): for every real \<open>h\<close> the result is congruent to \<open>h\<close> modulo \<open>2 * pi\<close>
  (the shift is \<open>-1\<close>, \<open>0\<close> or \<open>1\<close> turns), and it lies in the half-open interval
  \<open>(- pi, pi]\<close> exactly when \<open>- 3 * pi < h\<close>, \<open>h \<le> 3 * pi\<close> and \<open>h\<close> is not \<open>- pi\<close>.
\<close>

theorem validate_heading_range:
  "(\<exists>k\<in>{-1, 0, 1::int}. validate_heading h = h + 2 * pi * of_int k) \<and>
   ((- pi < validate_heading h \<and> validate_heading h \<le> pi) =
    (- 3 * pi < h \<and> h \<le> 3 * pi \<and> h \<noteq> - pi))"
proof -
  have p: "pi > 0" by (rule pi_gt_zero)
  show ?thesis
  proof (cases "h > pi")
    case True
    with p show ?thesis by (auto simp add: validate_heading_def)
  next
    case False
    note hle = this
    show ?thesis
    proof (cases "h < - pi")
      case True
      with p hle show ?thesis by (auto simp add: validate_heading_def)
    next
      case False
      with p hle show ?thesis by (auto simp add: validate_heading_def)
    qed
  qed
qed

text \<open>
  The amended C9 at \<open>h = 2 * pi\<close>, which lies between \<open>- 3 * pi\<close> and \<open>3 * pi\<close>: the
  result is 0, inside the interval.
\<close>

theorem validate_heading_range_witness:
  "validate_heading (2 * pi) = 0 \<and> - pi < validate_heading (2 * pi) \<and>
   validate_heading (2 * pi) \<le> pi"
proof -
  have p: "pi > 0" by (rule pi_gt_zero)
  have "(- pi < validate_heading (2 * pi) \<and> validate_heading (2 * pi) \<le> pi) =
        (- 3 * pi < 2 * pi \<and> 2 * pi \<le> 3 * pi \<and> 2 * pi \<noteq> - pi)"
    using validate_heading_range [of "2 * pi"] by blast
  moreover have "validate_heading (2 * pi) = 0"
    using p by (simp add: validate_heading_def)
  ultimately show ?thesis using p by simp
qed

section \<open>Claim C10: the navigability test of the raster planner\<close>

lemma RRTStarPNG_init_scale:
  assumes "RRTStarPNG_init prm gray blur = Inr s"
  shows "meters_per_pixel s \<noteq> 0"
  using assms
  by (auto simp: RRTStarPNG_init_def and_then_Inr_iff Let_def split: if_splits)

text \<open>
  Below the band of the index conversion the test is total: on a planner whose scale is
  not zero, a pose whose scaled pixel indices are both outside \<open>2 ^ 63\<close> to \<open>2 ^ 64 - 1\<close>
  gets a boolean, and False when an index is at or beyond the width or the height.
\<close>

lemma is_navigable_outside_band:
  assumes "meters_per_pixel s \<noteq> 0"
    and "scale_x s (pt_x pt) = Inr px" "scale_x s (pt_y pt) = Inr py"
    and "\<not> (2 ^ 63 \<le> px \<and> px < 2 ^ 64)" "\<not> (2 ^ 63 \<le> py \<and> py < 2 ^ 64)"
  shows "(\<exists>b. is_navigable s pt = Inr b) \<and>
         (int (ncols (map_img s)) \<le> px \<or> int (nrows (map_img s)) \<le> py \<longrightarrow>
            is_navigable s pt = Inr False)"
proof -
  have conv: "np_index px = Inr px \<or> np_index px = Inl IndexError"
    "np_index py = Inr py \<or> np_index py = Inl IndexError"
    using assms(4,5) by (auto simp: np_index_def)
  show ?thesis
    using conv assms(2,3)
    by (auto simp: is_navigable_def np_get_def Let_def)
qed


section \<open>Claim C1: the root of the tree\<close>

text \<open>Unfolding the loop of \<open>_get_path_to_start\<close> on a given tree.\<close>

lemma path_loop_at_start:
  "path_to_start_loop tr (Some st) st path = Some (Inr path)"
  by (subst path_to_start_loop.simps) simp

lemma path_loop_parent:
  "pt \<noteq> st \<Longrightarrow> map_of tr pt = Some (Some parent) \<Longrightarrow>
   path_to_start_loop tr (Some st) pt path = path_to_start_loop tr (Some st) parent (parent # path)"
  by (subst path_to_start_loop.simps) simp

lemma RRTStarPNG_init_small:
  "\<exists>s0. RRTStarPNG_init small_params white_image (\<lambda>a k. a) = Inr s0 \<and>
     near_threshold s0 = 3/2 \<and> x_min s0 = Some 0 \<and> y_min s0 = Some 0 \<and> tree s0 = [] \<and>
     grid_hash s0 = (\<lambda>c. []) \<and> cost_from_parent s0 = Map.empty \<and> start s0 = None \<and>
     meters_per_pixel s0 = 1 \<and> nrows (info_map s0) = 4 \<and> ncols (info_map s0) = 4 \<and>
     directory s0 = Some ''out''"
  by (simp add: RRTStarPNG_init_def RRTStarBase_init_def small_params_def floordiv_def
        white_image_def)

lemma generate_tree_init_small:
  assumes "near_threshold s0 = 3/2" "x_min s0 = Some 0" "y_min s0 = Some 0" "tree s0 = []"
     "grid_hash s0 = (\<lambda>c. [])" "cost_from_parent s0 = Map.empty"
  shows "generate_tree_init s0 start_pose goal_pose =
     Inr (s0\<lparr> start := Some start_pose, goal := Some goal_pose,
           tree := [(start_pose, None)],
           cost_from_parent := [start_pose \<mapsto> 0],
           grid_hash := (\<lambda>c. [])((1, 0) := [start_pose]) \<rparr>)"
  by (simp add: assms generate_tree_init_def add_to_grid_hash_def cell_of_def minus_offset_def
      floordiv_def start_pose_def pose_at_def)

lemma connect_first_sample:
  fixes s1 :: png_planner
  assumes "near_threshold s1 = 3/2" "x_min s1 = Some 0" "y_min s1 = Some 0"
    "tree s1 = [(start_pose, None)]" "start s1 = Some start_pose"
    "grid_hash s1 = (\<lambda>c. [])((1, 0) := [start_pose])"
    "cost_from_parent s1 = [start_pose \<mapsto> 0]"
    "meters_per_pixel s1 = 1" "nrows (info_map s1) = 4" "ncols (info_map s1) = 4"
  shows "\<exists>m. connect_sample (shortest_open_field 1) s1 (pose_at 1 1) =
     Some (Inr (s1\<lparr> tree := [(start_pose, None), (first_node, Some start_pose)],
           cost_from_parent := [start_pose \<mapsto> 0, first_node \<mapsto> 1],
           grid_hash := (\<lambda>c. [])((1, 0) := [start_pose], (0, 0) := [first_node]),
           info_map := m \<rparr>)) \<and> nrows m = 4 \<and> ncols m = 4"
proof -
  have near: "get_near_pts s1 (pose_at 1 1) = Inr [start_pose]"
    by (simp add: assms get_near_pts_def cell_of_def minus_offset_def floordiv_def pymod_def
        pose_at_def Let_def)
  have e: "euclid_2D (pose_at 1 1) start_pose = 1"
    by (simp add: euclid_2D_def pose_at_def start_pose_def)
  have nb: "find_nearby_nodes (shortest_open_field 1) s1 (pose_at 1 1) = Inr [start_pose]"
    by (simp add: find_nearby_nodes_def near e assms shortest_open_field_def)
       (simp add: pose_at_def start_pose_def)
  have c0: "cost_from_start (shortest_open_field 1) s1 start_pose = Some (Inr (0, s1))"
    by (simp add: cost_from_start_def get_path_to_start_def assms path_loop_at_start)
  have cf: "cost_from_to (shortest_open_field 1) start_pose (pose_at 1 1) False = (1, pi)"
    by (simp add: shortest_open_field_def euclid_2D_def start_pose_def pose_at_def atan2_def)
  have pl: "parent_loop (shortest_open_field 1) s1 (pose_at 1 1) None 0 [start_pose] =
        Some (Inr (Some (1, pi, 0, 1), s1))"
    by (simp add: c0 cf)
  let ?s2 = "s1\<lparr> tree := [(start_pose, None), (first_node, Some start_pose)],
           cost_from_parent := [start_pose \<mapsto> 0, first_node \<mapsto> 1],
           grid_hash := (\<lambda>c. [])((1, 0) := [start_pose], (0, 0) := [first_node]) \<rparr>"
  have ne: "first_node \<noteq> start_pose"
    by (simp add: first_node_def start_pose_def pose_at_def)
  have ins: "insert_node s1 (pose_at 1 1) (1, pi, 0, 1) [start_pose] =
        Inr (Some (?s2, first_node, []))"
    using ne
    by (simp add: insert_node_def assms add_to_grid_hash_def cell_of_def minus_offset_def
        floordiv_def first_node_def pose_at_def Let_def)
  obtain m where m: "np_set (info_map s1) 1 1 2 = Inr m" "nrows m = 4" "ncols m = 4"
    by (simp add: np_set_def np_index_def assms Let_def)
  have info: "add_node_in_info_map ?s2 (pt_x first_node, pt_y first_node) =
        Inr (?s2\<lparr>info_map := m\<rparr>)"
    by (simp add: add_node_in_info_map_def scale_x_def scale_y_def py_int_def assms m
        first_node_def pose_at_def)
  have "connect_sample (shortest_open_field 1) s1 (pose_at 1 1) = Some (Inr (?s2\<lparr>info_map := m\<rparr>))"
    by (simp add: connect_sample_def nb cf c0 ins info)
  with m show ?thesis by auto
qed


lemma connect_second_sample:
  fixes s2 :: png_planner
  assumes "near_threshold s2 = 3/2" "x_min s2 = Some 0" "y_min s2 = Some 0"
    "tree s2 = [(start_pose, None), (first_node, Some start_pose)]" "start s2 = Some start_pose"
    "grid_hash s2 = (\<lambda>c. [])((1, 0) := [start_pose], (0, 0) := [first_node])"
    "cost_from_parent s2 = [start_pose \<mapsto> 0, first_node \<mapsto> 1]"
    "meters_per_pixel s2 = 1" "nrows (info_map s2) = 4" "ncols (info_map s2) = 4"
  shows "\<exists>s3. connect_sample (shortest_open_field 1) s2 (pose_at 2 1) = Some (Inr s3) \<and>
      tree s3 = [(start_pose, Some first_node), (first_node, Some start_pose)] \<and>
      start s3 = Some start_pose"
proof -
  have ne: "first_node \<noteq> start_pose"
    by (simp add: first_node_def start_pose_def pose_at_def)
  have near: "get_near_pts s2 (pose_at 2 1) = Inr [start_pose, first_node]"
    by (simp add: assms get_near_pts_def cell_of_def minus_offset_def floordiv_def pymod_def
        pose_at_def Let_def)
  have e: "euclid_2D (pose_at 2 1) first_node = 1"
    by (simp add: euclid_2D_def pose_at_def first_node_def)
  have nb: "find_nearby_nodes (shortest_open_field 1) s2 (pose_at 2 1) = Inr [first_node]"
    by (simp add: find_nearby_nodes_def near e assms shortest_open_field_def)
       (simp add: pose_at_def start_pose_def first_node_def)
  have c1: "cost_from_start (shortest_open_field 1) s2 first_node = Some (Inr (1, s2))"
    using ne
    by (simp add: cost_from_start_def get_path_to_start_def assms path_loop_parent
        path_loop_at_start)
  have cf: "cost_from_to (shortest_open_field 1) first_node (pose_at 2 1) False = (1, 0)"
    by (simp add: shortest_open_field_def euclid_2D_def first_node_def pose_at_def atan2_def)
  have same: "(pose_at 2 1)\<lparr>heading := 0\<rparr> = start_pose"
    by (simp add: start_pose_def pose_at_def)
  let ?s3 = "s2\<lparr> tree := [(start_pose, Some first_node), (first_node, Some start_pose)],
           cost_from_parent := [start_pose \<mapsto> 1, first_node \<mapsto> 1],
           grid_hash := (\<lambda>c. [])((1, 0) := [start_pose, start_pose], (0, 0) := [first_node]) \<rparr>"
  have ins: "insert_node s2 (pose_at 2 1) (2, 0, 0, 1) [first_node] =
        Inr (Some (?s3, start_pose, []))"
    using ne
    by (simp add: insert_node_def same assms add_to_grid_hash_def cell_of_def minus_offset_def
        floordiv_def Let_def)
       (auto simp: start_pose_def pose_at_def fun_eq_iff)
  obtain m where m: "np_set (info_map s2) 1 2 2 = Inr m"
    by (simp add: np_set_def np_index_def assms Let_def)
  have info: "add_node_in_info_map ?s3 (pt_x start_pose, pt_y start_pose) =
        Inr (?s3\<lparr>info_map := m\<rparr>)"
    by (simp add: add_node_in_info_map_def scale_x_def scale_y_def py_int_def assms m
        start_pose_def pose_at_def)
  have "connect_sample (shortest_open_field 1) s2 (pose_at 2 1) = Some (Inr (?s3\<lparr>info_map := m\<rparr>))"
    by (simp add: connect_sample_def nb cf c1 ins info)
  then show ?thesis by (simp add: assms)
qed

text \<open>
  C1 says that after every insertion exactly one pose of the tree, the start, is mapped
  to None. The run below breaks it. On the four by four raster with near threshold 1.5
  and the shortest cost model, the sample \<open>(1, 1)\<close> is inserted under the start with
  heading \<open>pi\<close> (no checkpoint exists, so the loader changes nothing). The next sample lies at \<open>(2, 1)\<close>, the position of the start; the start
  is left out of its neighbours (same \<open>x\<close> and \<open>y\<close>), the first node becomes its parent,
  and the heading of that edge is 0, the heading of the start. The sample is then the
  same key as the start, and line 473 writes the first node as the parent of the start:
  no pose of the tree is mapped to None any more.
\<close>

theorem insertion_overwrites_root:
  "\<exists>s0 s1 s2 s3.
     RRTStarPNG_init small_params white_image (\<lambda>a k. a) = Inr s0 \<and>
     generate_tree_init s0 start_pose goal_pose = Inr s1 \<and>
     load_tree_from_json small_codec s1 None [] = Inr s1 \<and>
     tree s1 = [(start_pose, None)] \<and>
     connect_sample (shortest_open_field 1) s1 (pose_at 1 1) = Some (Inr s2) \<and>
     tree s2 = [(start_pose, None), (first_node, Some start_pose)] \<and>
     connect_sample (shortest_open_field 1) s2 (pose_at 2 1) = Some (Inr s3) \<and>
     tree s3 = [(start_pose, Some first_node), (first_node, Some start_pose)] \<and>
     start s3 = Some start_pose \<and> None \<notin> snd ` set (tree s3)"
proof -
  from RRTStarPNG_init_small obtain s0 :: png_planner where
    s0: "RRTStarPNG_init small_params white_image (\<lambda>a k. a) = Inr s0"
      "near_threshold s0 = 3/2" "x_min s0 = Some 0" "y_min s0 = Some 0" "tree s0 = []"
      "grid_hash s0 = (\<lambda>c. [])" "cost_from_parent s0 = Map.empty"
      "meters_per_pixel s0 = 1" "nrows (info_map s0) = 4" "ncols (info_map s0) = 4"
      "directory s0 = Some ''out''"
    by blast
  let ?s1 = "s0\<lparr> start := Some start_pose, goal := Some goal_pose,
           tree := [(start_pose, None)],
           cost_from_parent := [start_pose \<mapsto> 0],
           grid_hash := (\<lambda>c. [])((1, 0) := [start_pose]) \<rparr>"
  have s1: "generate_tree_init s0 start_pose goal_pose = Inr ?s1"
    by (rule generate_tree_init_small [OF s0(2-7)])
  have "\<exists>m. connect_sample (shortest_open_field 1) ?s1 (pose_at 1 1) =
     Some (Inr (?s1\<lparr> tree := [(start_pose, None), (first_node, Some start_pose)],
           cost_from_parent := [start_pose \<mapsto> 0, first_node \<mapsto> 1],
           grid_hash := (\<lambda>c. [])((1, 0) := [start_pose], (0, 0) := [first_node]),
           info_map := m \<rparr>)) \<and> nrows m = 4 \<and> ncols m = 4"
    by (rule connect_first_sample) (simp_all add: s0)
  then obtain m where
    s2: "connect_sample (shortest_open_field 1) ?s1 (pose_at 1 1) =
     Some (Inr (?s1\<lparr> tree := [(start_pose, None), (first_node, Some start_pose)],
           cost_from_parent := [start_pose \<mapsto> 0, first_node \<mapsto> 1],
           grid_hash := (\<lambda>c. [])((1, 0) := [start_pose], (0, 0) := [first_node]),
           info_map := m \<rparr>))" and m: "nrows m = 4" "ncols m = 4"
    by blast
  let ?s2 = "?s1\<lparr> tree := [(start_pose, None), (first_node, Some start_pose)],
           cost_from_parent := [start_pose \<mapsto> 0, first_node \<mapsto> 1],
           grid_hash := (\<lambda>c. [])((1, 0) := [start_pose], (0, 0) := [first_node]),
           info_map := m \<rparr>"
  have "\<exists>s3. connect_sample (shortest_open_field 1) ?s2 (pose_at 2 1) = Some (Inr s3) \<and>
      tree s3 = [(start_pose, Some first_node), (first_node, Some start_pose)] \<and>
      start s3 = Some start_pose"
    by (rule connect_second_sample) (simp_all add: s0 m)
  then obtain s3 where
    s3: "connect_sample (shortest_open_field 1) ?s2 (pose_at 2 1) = Some (Inr s3)"
      "tree s3 = [(start_pose, Some first_node), (first_node, Some start_pose)]"
      "start s3 = Some start_pose"
    by blast
  have t1: "tree ?s1 = [(start_pose, None)]" by simp
  have ld: "load_tree_from_json small_codec ?s1 None [] = Inr ?s1"
    by (simp add: load_tree_from_json_def s0)
  have t2: "tree ?s2 = [(start_pose, None), (first_node, Some start_pose)]" by simp
  have n: "None \<notin> snd ` set (tree s3)" by (simp add: s3(2))
  from s0(1) s1 ld t1 s2 t2 s3 n show ?thesis by blast
qed

text \<open>
  What the insertion lacks is a test that the sample is a new key: for a sample that
  is no key of the tree and is not the start, the insertion keeps the tree well formed
  and appends one entry.
\<close>

lemma walk_insert_fresh:
  assumes "walk tr st ec q path c"
    and fresh: "k \<notin> fst ` set tr"
    and same: "\<And>x parent. x \<noteq> k \<Longrightarrow> ec' parent x = ec parent x"
  shows "walk (AList.update k v tr) st ec' q path c"
  using assms(1)
proof (induction rule: walk.induct)
  case walk_start
  show ?case by (rule walk.walk_start)
next
  case (walk_step p parent path c)
  from walk_step.hyps(2) have "p \<in> fst ` set tr"
    by (auto dest: map_of_SomeD intro: rev_image_eqI)
  with fresh have pk: "p \<noteq> k" by blast
  then have m: "map_of (AList.update k v tr) p = Some (Some parent)"
    using walk_step.hyps(2) by (simp add: update_conv')
  have "walk (AList.update k v tr) st ec' p (path @ [p]) (c + ec' parent p)"
    using walk_step.hyps(1) m walk_step.IH by (rule walk.walk_step)
  with same [OF pk] show ?case by simp
qed

lemma insert_node_tree_ok:
  assumes ok: "tree_ok cm s"
    and idx: "best_parent_idx < length nearby_nodes"
    and parent: "nearby_nodes ! best_parent_idx \<in> fst ` set (tree s)"
    and fresh: "rand_pt\<lparr>heading := h\<rparr> \<notin> fst ` set (tree s)"
    and notstart: "start s \<noteq> Some (rand_pt\<lparr>heading := h\<rparr>)"
    and ready: "grid_ready s"
  shows "\<exists>s' rest. insert_node s rand_pt (m, h, best_parent_idx, c) nearby_nodes =
             Inr (Some (s', rand_pt\<lparr>heading := h\<rparr>, rest)) \<and>
           tree_ok cm s' \<and> start s' = start s \<and>
           tree s' = tree s @ [(rand_pt\<lparr>heading := h\<rparr>, Some (nearby_nodes ! best_parent_idx))]"
proof -
  let ?k = "rand_pt\<lparr>heading := h\<rparr>"
  let ?p = "nearby_nodes ! best_parent_idx"
  let ?s1 = "s\<lparr> tree := AList.update ?k (Some ?p) (tree s),
                cost_from_parent := (cost_from_parent s)(?k \<mapsto> c) \<rparr>"
  from ok obtain st where st: "start s = Some st"
    and all: "\<forall>q\<in>fst ` set (tree s).
               \<exists>path c. walk (tree s) st (edge_cost cm (cost_from_parent s)) q path c"
    unfolding tree_ok_def by blast
  have r1: "grid_ready ?s1" using ready by (simp add: grid_ready_def)
  from add_to_grid_hash_ready [OF r1, of ?k] obtain cell where
    add: "add_to_grid_hash ?s1 ?k =
          Inr (?s1\<lparr>grid_hash := (grid_hash ?s1)(cell := grid_hash ?s1 cell @ [?k])\<rparr>)"
    by blast
  let ?s' = "?s1\<lparr>grid_hash := (grid_hash ?s1)(cell := grid_hash ?s1 cell @ [?k])\<rparr>"
  have ins: "insert_node s rand_pt (m, h, best_parent_idx, c) nearby_nodes =
        Inr (Some (?s', ?k, take best_parent_idx nearby_nodes @ drop (Suc best_parent_idx) nearby_nodes))"
    using idx add by (simp add: insert_node_def Let_def)
  have tr': "tree ?s' = tree s @ [(?k, Some ?p)]"
    using fresh by (simp add: update_fresh)
  let ?ec = "edge_cost cm (cost_from_parent s)"
  let ?ec' = "edge_cost cm (cost_from_parent ?s')"
  have same: "?ec' parent x = ?ec parent x" if "x \<noteq> ?k" for x parent
    using that by (simp add: edge_cost_def)
  have old: "\<exists>path c. walk (tree ?s') st ?ec' q path c" if "q \<in> fst ` set (tree s)" for q
  proof -
    from all that obtain path c0 where w: "walk (tree s) st ?ec q path c0" by blast
    have "walk (AList.update ?k (Some ?p) (tree s)) st ?ec' q path c0"
      by (rule walk_insert_fresh [OF w fresh]) (rule same)
    then show ?thesis by auto
  qed
  have kst: "?k \<noteq> st" using notstart st by auto
  from old [OF parent] obtain pathp cp where wp: "walk (tree ?s') st ?ec' ?p pathp cp" by blast
  have mk: "map_of (tree ?s') ?k = Some (Some ?p)" by (simp add: update_conv')
  have new: "walk (tree ?s') st ?ec' ?k (pathp @ [?k]) (cp + ?ec' ?p ?k)"
    using kst mk wp by (rule walk.walk_step)
  have "tree_ok cm ?s'"
    unfolding tree_ok_def
  proof (intro exI [of _ st] conjI ballI)
    show "start ?s' = Some st" using st by simp
  next
    fix q assume "q \<in> fst ` set (tree ?s')"
    then have "q = ?k \<or> q \<in> fst ` set (tree s)" unfolding tr' by auto
    then show "\<exists>path c. walk (tree ?s') st ?ec' q path c"
      using new old by blast
  qed
  with ins tr' show ?thesis by simp
qed

end
